theory Spec2Isabelle
  imports Main "HOL-Library.Sublist" "HOL-Library.Char_ord" "HOL-Library.List_Lexorder"
begin

section \<open>The catalog (package db)\<close>

text \<open>
  The catalog is the SQLite database of \<^verbatim>\<open>internal/db\<close>: two tables, \<^verbatim>\<open>repos\<close> and
  \<^verbatim>\<open>worktrees\<close> (migration \<^verbatim>\<open>001_initial.up.sql\<close>). A table is the list of its rows in
  insertion order, a nullable column is an \<open>option\<close>, \<^verbatim>\<open>CURRENT_TIMESTAMP\<close> is a
  parameter \<open>now\<close>. A statement fails when it violates a constraint of the schema
  (the foreign key of \<^verbatim>\<open>worktrees.repo_id\<close>, enforced by \<^verbatim>\<open>_foreign_keys=on\<close>) or when
  it binds more variables than SQLite accepts; a failure of the storage medium itself is
  outside the model, so a statement that can do neither returns the new catalog only, and
  the branches of its callers for its error have no counterpart here.
\<close>

type_synonym timestamp = nat

datatype error =
    ExternalError string
  | ForeignKeyConstraintFailed
  | TooManySQLVariables
  | FailedToOpenDatabase error
  | FailedToGetCurrentDirectory error
  | WorktreeNotFound string
  | NoRemovableWorktrees
  | FailedToGetMainRepoPath error
  | CannotDeleteMainWorktree
  | CannotRemoveMainWorktree
  | FailedToRemoveWorktree error
  | FailedToRemoveWorktreeUseForce error
  | WorktreeDirectoryAlreadyExists string
  | FailedToCreateWorktreesDirectory error
  | FailedToCreateWorktree error
  | FailedToGetRepoFromDatabase
  | FailedToSyncWorktrees error
  | IndexOutOfRange
  | EndOfInput

text \<open>A row of \<^verbatim>\<open>repos\<close>; the Go struct \<^verbatim>\<open>db.Repo\<close> has exactly these fields.\<close>

record repo_row =
  r_id :: int
  r_path :: string
  r_name :: string
  r_worktrees_dir :: string
  r_last_synced_at :: "timestamp option"
  r_created_at :: timestamp
  r_deleted_at :: "timestamp option"

text \<open>A row of \<^verbatim>\<open>worktrees\<close>.\<close>

record worktree_row =
  w_id :: int
  w_repo_id :: int
  w_path :: string
  w_branch :: string
  w_is_main :: bool
  w_created_at :: timestamp
  w_deleted_at :: "timestamp option"

text \<open>The Go struct \<^verbatim>\<open>db.Worktree\<close>: a row together with the two joined fields.\<close>

record Worktree =
  ID :: int
  RepoID :: int
  Path :: string
  Branch :: string
  IsMain :: bool
  CreatedAt :: timestamp
  DeletedAt :: "timestamp option"
  RepoName :: string
  RepoPath :: string

record catalog =
  repos_table :: "repo_row list"
  worktrees_table :: "worktree_row list"

text \<open>
  \<^verbatim>\<open>id INTEGER PRIMARY KEY\<close> without \<^verbatim>\<open>AUTOINCREMENT\<close>: a new row gets the largest
  id in the table plus one, and 1 in an empty table.
\<close>

definition next_rowid :: "int list \<Rightarrow> int" where
  "next_rowid ids = (if ids = [] then 1 else Max (set ids) + 1)"

text \<open>
  \<^verbatim>\<open>UpsertWorktree\<close>: \<^verbatim>\<open>INSERT ... ON CONFLICT(path) DO UPDATE SET repo_id, branch,
  is_main, deleted_at = NULL RETURNING id, created_at\<close>. The returned struct is the
  argument with \<open>ID\<close> and \<open>CreatedAt\<close> scanned from the row.
\<close>

definition upsert_row :: "Worktree \<Rightarrow> worktree_row \<Rightarrow> worktree_row" where
  "upsert_row wt r =
     (if w_path r = Path wt
      then r\<lparr>w_repo_id := RepoID wt, w_branch := Branch wt,
             w_is_main := IsMain wt, w_deleted_at := None\<rparr>
      else r)"

definition UpsertWorktree ::
  "timestamp \<Rightarrow> catalog \<Rightarrow> Worktree \<Rightarrow> error + (catalog \<times> Worktree)" where
  "UpsertWorktree now c wt =
     (if RepoID wt \<notin> set (map r_id (repos_table c)) then Inl ForeignKeyConstraintFailed
      else case find (\<lambda>r. w_path r = Path wt) (worktrees_table c) of
        Some hit \<Rightarrow>
          Inr (c\<lparr>worktrees_table := map (upsert_row wt) (worktrees_table c)\<rparr>,
               wt\<lparr>ID := w_id hit, CreatedAt := w_created_at hit\<rparr>)
      | None \<Rightarrow>
          (let new_id = next_rowid (map w_id (worktrees_table c));
               row = \<lparr>w_id = new_id, w_repo_id = RepoID wt, w_path = Path wt,
                      w_branch = Branch wt, w_is_main = IsMain wt,
                      w_created_at = now, w_deleted_at = None\<rparr>
           in Inr (c\<lparr>worktrees_table := worktrees_table c @ [row]\<rparr>,
                   wt\<lparr>ID := new_id, CreatedAt := now\<rparr>)))"

text \<open>
  The join of the read queries: \<^verbatim>\<open>FROM worktrees w JOIN repos r ON w.repo_id = r.id\<close>.
\<close>

definition joined :: "catalog \<Rightarrow> worktree_row \<Rightarrow> Worktree option" where
  "joined c w =
     (case find (\<lambda>r. r_id r = w_repo_id w) (repos_table c) of
        None \<Rightarrow> None
      | Some r \<Rightarrow>
          Some \<lparr>ID = w_id w, RepoID = w_repo_id w, Path = w_path w, Branch = w_branch w,
                IsMain = w_is_main w, CreatedAt = w_created_at w,
                DeletedAt = w_deleted_at w, RepoName = r_name r, RepoPath = r_path r\<rparr>)"

text \<open>\<^verbatim>\<open>GetWorktreeByPath\<close>: \<^verbatim>\<open>WHERE w.path = ? AND w.deleted_at IS NULL\<close>.\<close>

definition GetWorktreeByPath :: "catalog \<Rightarrow> string \<Rightarrow> Worktree option" where
  "GetWorktreeByPath c p =
     (case find (\<lambda>w. w_path w = p \<and> w_deleted_at w = None \<and> joined c w \<noteq> None)
                (worktrees_table c) of
        None \<Rightarrow> None
      | Some w \<Rightarrow> joined c w)"

text \<open>\<^verbatim>\<open>SoftDeleteWorktree\<close>: \<^verbatim>\<open>UPDATE worktrees SET deleted_at = CURRENT_TIMESTAMP WHERE id = ?\<close>.\<close>

definition SoftDeleteWorktree :: "timestamp \<Rightarrow> catalog \<Rightarrow> int \<Rightarrow> catalog" where
  "SoftDeleteWorktree now c i =
     c\<lparr>worktrees_table :=
         map (\<lambda>r. if w_id r = i then r\<lparr>w_deleted_at := Some now\<rparr> else r) (worktrees_table c)\<rparr>"

text \<open>\<^verbatim>\<open>SoftDeleteWorktreeByPath\<close>: the same with \<^verbatim>\<open>WHERE path = ?\<close>.\<close>

definition SoftDeleteWorktreeByPath :: "timestamp \<Rightarrow> catalog \<Rightarrow> string \<Rightarrow> catalog" where
  "SoftDeleteWorktreeByPath now c p =
     c\<lparr>worktrees_table :=
         map (\<lambda>r. if w_path r = p then r\<lparr>w_deleted_at := Some now\<rparr> else r) (worktrees_table c)\<rparr>"

text \<open>
  A statement binds at most \<^verbatim>\<open>SQLITE_MAX_VARIABLE_NUMBER\<close> variables, 32766 in the SQLite
  that the driver \<^verbatim>\<open>go-sqlite3\<close> is built with; \<^verbatim>\<open>db.Exec\<close> answers a statement with
  more of them with the error \<^verbatim>\<open>too many SQL variables\<close> and changes nothing.
\<close>

definition SQLITE_MAX_VARIABLE_NUMBER :: nat where
  "SQLITE_MAX_VARIABLE_NUMBER = 32766"

text \<open>
  \<^verbatim>\<open>SoftDeleteMissingWorktrees\<close>: with no path to keep, every non-deleted row of the
  repository is marked; otherwise those whose path is \<^verbatim>\<open>NOT IN\<close> the given list, in a
  statement with one variable for the repository and one for each path.
\<close>

definition SoftDeleteMissingWorktrees ::
  "timestamp \<Rightarrow> catalog \<Rightarrow> int \<Rightarrow> string list \<Rightarrow> error + catalog" where
  "SoftDeleteMissingWorktrees now c repoID existingPaths =
     (if length existingPaths = 0 then
        Inr (c\<lparr>worktrees_table :=
            map (\<lambda>r. if w_repo_id r = repoID \<and> w_deleted_at r = None
                      then r\<lparr>w_deleted_at := Some now\<rparr> else r) (worktrees_table c)\<rparr>)
      else if length existingPaths + 1 > SQLITE_MAX_VARIABLE_NUMBER then
        Inl TooManySQLVariables
      else
        Inr (c\<lparr>worktrees_table :=
            map (\<lambda>r. if w_repo_id r = repoID \<and> w_deleted_at r = None
                         \<and> w_path r \<notin> set existingPaths
                      then r\<lparr>w_deleted_at := Some now\<rparr> else r) (worktrees_table c)\<rparr>))"

text \<open>
  \<^verbatim>\<open>UpsertRepo\<close>: \<^verbatim>\<open>INSERT ... ON CONFLICT(path) DO UPDATE SET name, worktrees_dir,
  last_synced_at, deleted_at = NULL RETURNING id, created_at\<close>.
\<close>

definition upsert_repo_row :: "repo_row \<Rightarrow> repo_row \<Rightarrow> repo_row" where
  "upsert_repo_row repo r =
     (if r_path r = r_path repo
      then r\<lparr>r_name := r_name repo, r_worktrees_dir := r_worktrees_dir repo,
             r_last_synced_at := r_last_synced_at repo, r_deleted_at := None\<rparr>
      else r)"

definition UpsertRepo :: "timestamp \<Rightarrow> catalog \<Rightarrow> repo_row \<Rightarrow> catalog \<times> repo_row" where
  "UpsertRepo now c repo =
     (case find (\<lambda>r. r_path r = r_path repo) (repos_table c) of
        Some hit \<Rightarrow>
          (c\<lparr>repos_table := map (upsert_repo_row repo) (repos_table c)\<rparr>,
           repo\<lparr>r_id := r_id hit, r_created_at := r_created_at hit\<rparr>)
      | None \<Rightarrow>
          (let new_id = next_rowid (map r_id (repos_table c));
               row = \<lparr>r_id = new_id, r_path = r_path repo, r_name = r_name repo,
                      r_worktrees_dir = r_worktrees_dir repo,
                      r_last_synced_at = r_last_synced_at repo,
                      r_created_at = now, r_deleted_at = None\<rparr>
           in (c\<lparr>repos_table := repos_table c @ [row]\<rparr>, row)))"

text \<open>\<^verbatim>\<open>GetRepoByPath\<close>: \<^verbatim>\<open>WHERE path = ? AND deleted_at IS NULL\<close>.\<close>

definition GetRepoByPath :: "catalog \<Rightarrow> string \<Rightarrow> repo_row option" where
  "GetRepoByPath c p = find (\<lambda>r. r_path r = p \<and> r_deleted_at r = None) (repos_table c)"

text \<open>\<^verbatim>\<open>ListRepos\<close>: \<^verbatim>\<open>WHERE deleted_at IS NULL ORDER BY name\<close>.\<close>

definition ListRepos :: "catalog \<Rightarrow> repo_row list" where
  "ListRepos c = sort_key r_name (filter (\<lambda>r. r_deleted_at r = None) (repos_table c))"

text \<open>
  \<^verbatim>\<open>ListAllWorktrees\<close>: the join \<^verbatim>\<open>WHERE w.deleted_at IS NULL AND r.deleted_at IS NULL
  ORDER BY r.name, w.is_main DESC, w.branch\<close>; the three stable sorts, the last key first,
  give that order.
\<close>

definition ListAllWorktrees :: "catalog \<Rightarrow> Worktree list" where
  "ListAllWorktrees c =
     sort_key RepoName (sort_key (\<lambda>wt. \<not> IsMain wt) (sort_key Branch
       (List.map_filter
          (\<lambda>w. case find (\<lambda>r. r_id r = w_repo_id w) (repos_table c) of
                  None \<Rightarrow> None
                | Some r \<Rightarrow> if w_deleted_at w = None \<and> r_deleted_at r = None
                            then joined c w else None)
          (worktrees_table c))))"

text \<open>\<^verbatim>\<open>SoftDeleteRepo\<close>: \<^verbatim>\<open>UPDATE repos SET deleted_at = CURRENT_TIMESTAMP WHERE id = ?\<close>.\<close>

definition SoftDeleteRepo :: "timestamp \<Rightarrow> catalog \<Rightarrow> int \<Rightarrow> catalog" where
  "SoftDeleteRepo now c i =
     c\<lparr>repos_table := map (\<lambda>r. if r_id r = i then r\<lparr>r_deleted_at := Some now\<rparr> else r) (repos_table c)\<rparr>"

text \<open>\<^verbatim>\<open>UpdateLastSynced\<close>: \<^verbatim>\<open>UPDATE repos SET last_synced_at = CURRENT_TIMESTAMP WHERE id = ?\<close>.\<close>

definition UpdateLastSynced :: "timestamp \<Rightarrow> catalog \<Rightarrow> int \<Rightarrow> catalog" where
  "UpdateLastSynced now c i =
     c\<lparr>repos_table := map (\<lambda>r. if r_id r = i then r\<lparr>r_last_synced_at := Some now\<rparr> else r) (repos_table c)\<rparr>"


section \<open>Paths and git (package git, Go's path/filepath on Unix)\<close>

text \<open>
  \<^verbatim>\<open>filepath.Clean\<close>, \<^verbatim>\<open>Join\<close>, \<^verbatim>\<open>Dir\<close> and \<^verbatim>\<open>Base\<close> of the Go standard library,
  for the separator \<^verbatim>\<open>/\<close>. \<open>Clean\<close> drops empty and \<^verbatim>\<open>.\<close> elements, lets \<^verbatim>\<open>..\<close> remove
  the element before it (or vanish at the root), and turns the empty result into \<^verbatim>\<open>.\<close>.
\<close>

fun split_slash :: "string \<Rightarrow> string list" where
  "split_slash [] = [[]]"
| "split_slash (c # cs) =
     (if c = CHR ''/'' then [] # split_slash cs
      else (case split_slash cs of [] \<Rightarrow> [[c]] | e # es \<Rightarrow> (c # e) # es))"

fun join_slash :: "string list \<Rightarrow> string" where
  "join_slash [] = []"
| "join_slash [e] = e"
| "join_slash (e # e' # es) = e @ ''/'' @ join_slash (e' # es)"

definition clean_step :: "bool \<Rightarrow> string list \<Rightarrow> string \<Rightarrow> string list" where
  "clean_step rooted st e =
     (if e = ''..'' then
        (if st \<noteq> [] \<and> last st \<noteq> ''..'' then butlast st
         else if rooted then st
         else st @ [e])
      else st @ [e])"

definition Clean :: "string \<Rightarrow> string" where
  "Clean p =
     (let rooted = (p \<noteq> [] \<and> hd p = CHR ''/'');
          elems = filter (\<lambda>e. e \<noteq> [] \<and> e \<noteq> ''.'') (split_slash p);
          out = (if rooted then ''/'' else []) @ join_slash (foldl (clean_step rooted) [] elems)
      in if out = [] then ''.'' else out)"

text \<open>\<^verbatim>\<open>filepath.Join\<close> of two elements: empty elements are ignored, the result is cleaned.\<close>

definition Join :: "string \<Rightarrow> string \<Rightarrow> string" where
  "Join a b =
     (if a \<noteq> [] then Clean (a @ ''/'' @ b)
      else if b \<noteq> [] then Clean b
      else [])"

definition Dir :: "string \<Rightarrow> string" where
  "Dir p = Clean (rev (dropWhile (\<lambda>c. c \<noteq> CHR ''/'') (rev p)))"

definition Base :: "string \<Rightarrow> string" where
  "Base p =
     (if p = [] then ''.''
      else (let q = dropWhile (\<lambda>c. c = CHR ''/'') (rev p);
                b = rev (takeWhile (\<lambda>c. c \<noteq> CHR ''/'') q)
            in if b = [] then ''/'' else b))"

text \<open>\<^verbatim>\<open>strings.ReplaceAll\<close> for a one-byte pattern and a one-byte replacement.\<close>

definition ReplaceAll :: "string \<Rightarrow> char \<Rightarrow> char \<Rightarrow> string" where
  "ReplaceAll s old new = map (\<lambda>c. if c = old then new else c) s"

definition GetRepoName :: "string \<Rightarrow> string" where
  "GetRepoName repoPath = Base repoPath"

definition GetDefaultWorktreesDir :: "string \<Rightarrow> string" where
  "GetDefaultWorktreesDir repoPath =
     (let name = GetRepoName repoPath;
          parent = Dir repoPath
      in Join parent (name @ ''.worktrees''))"

record WorktreeInfo =
  wi_Path :: string
  wi_Branch :: string
  wi_IsMain :: bool

text \<open>
  What lies outside the program is a state \<open>'g\<close> (the repositories and the file system)
  and the calls the program makes on it: running a git subcommand in a directory
  (\<^verbatim>\<open>cmd.Run\<close>), the three queries \<^verbatim>\<open>git.ListWorktrees\<close>, \<^verbatim>\<open>git.GetMainRepoPath\<close> and
  \<^verbatim>\<open>git.IsInsideRepo\<close>, \<^verbatim>\<open>os.Stat\<close> (true when it returns no error), \<^verbatim>\<open>os.MkdirAll\<close> and
  \<^verbatim>\<open>os.Getwd\<close>. Nothing is assumed about them.
\<close>

record 'g env =
  git_Run :: "'g \<Rightarrow> string \<Rightarrow> string list \<Rightarrow> error option \<times> 'g"
  git_ListWorktrees :: "'g \<Rightarrow> string \<Rightarrow> error + WorktreeInfo list"
  git_GetMainRepoPath :: "'g \<Rightarrow> string \<Rightarrow> error + string"
  git_IsInsideRepo :: "'g \<Rightarrow> string \<Rightarrow> bool"
  os_Stat :: "'g \<Rightarrow> string \<Rightarrow> bool"
  os_MkdirAll :: "'g \<Rightarrow> string \<Rightarrow> error option \<times> 'g"
  os_Getwd :: "'g \<Rightarrow> error + string"

text \<open>\<^verbatim>\<open>AddWorktree\<close>: an existing branch, else a new branch from the remote, else from HEAD.\<close>

definition AddWorktree ::
  "'g env \<Rightarrow> 'g \<Rightarrow> string \<Rightarrow> string \<Rightarrow> string \<Rightarrow> error option \<times> 'g" where
  "AddWorktree env g repoPath branch targetPath =
     (case git_Run env g repoPath [''worktree'', ''add'', targetPath, branch] of
        (None, g1) \<Rightarrow> (None, g1)
      | (Some _, g1) \<Rightarrow>
          (case git_Run env g1 repoPath
                  [''worktree'', ''add'', ''-b'', branch, targetPath, ''origin/'' @ branch] of
             (None, g2) \<Rightarrow> (None, g2)
           | (Some _, g2) \<Rightarrow>
               git_Run env g2 repoPath [''worktree'', ''add'', ''-b'', branch, targetPath]))"

definition RemoveWorktree :: "'g env \<Rightarrow> 'g \<Rightarrow> string \<Rightarrow> string \<Rightarrow> error option \<times> 'g" where
  "RemoveWorktree env g repoPath worktreePath =
     git_Run env g repoPath [''worktree'', ''remove'', worktreePath]"

definition RemoveWorktreeForce :: "'g env \<Rightarrow> 'g \<Rightarrow> string \<Rightarrow> string \<Rightarrow> error option \<times> 'g" where
  "RemoveWorktreeForce env g repoPath worktreePath =
     git_Run env g repoPath [''worktree'', ''remove'', ''--force'', worktreePath]"

section \<open>The state of one invocation\<close>

datatype out_line =
    WarningFailedToSync string error
  | ConfirmPrompt string
  | Newline
  | RemovingWorktree
  | WorktreeDeleted
  | WorktreeRemovedSuccessfully
  | Cancelled
  | CreatingWorktree string string
  | WorktreeCreatedSuccessfully
  | Cd string

text \<open>
  The catalog, the outside state, the clock read by \<^verbatim>\<open>CURRENT_TIMESTAMP\<close>, the error of
  \<^verbatim>\<open>db.Default\<close> and of \<^verbatim>\<open>term.MakeRaw\<close> if they fail, the bytes waiting on standard
  input, and the lines written so far (standard output and standard error, in order).
\<close>

record 'g world =
  cat :: catalog
  ext :: 'g
  clock :: timestamp
  db_open_error :: "error option"
  make_raw_error :: "error option"
  stdin :: "nat list"
  out :: "out_line list"

definition emit :: "out_line \<Rightarrow> 'g world \<Rightarrow> 'g world" where
  "emit l w = w\<lparr>out := out w @ [l]\<rparr>"

text \<open>
  \<^verbatim>\<open>ui.Confirm\<close>: prints the prompt, puts the terminal in raw mode, reads one byte;
  carriage return and line feed confirm.
\<close>

definition Confirm :: "'g world \<Rightarrow> string \<Rightarrow> (error + bool) \<times> 'g world" where
  "Confirm w message =
     (let w1 = emit (ConfirmPrompt message) w in
      case make_raw_error w1 of
        Some e \<Rightarrow> (Inl e, w1)
      | None \<Rightarrow>
          (case stdin w1 of
             [] \<Rightarrow> (Inl EndOfInput, emit Newline w1)
           | b # bs \<Rightarrow> (Inr (b = 13 \<or> b = 10), emit Newline (w1\<lparr>stdin := bs\<rparr>))))"

section \<open>Reconciliation and the workflows (package cmd)\<close>

text \<open>
  The struct that \<^verbatim>\<open>syncWorktrees\<close> builds for a listed worktree; the fields it does not
  set have Go's zero values.
\<close>

abbreviation listed :: "int \<Rightarrow> WorktreeInfo \<Rightarrow> Worktree" where
  "listed repoID gwt \<equiv>
     \<lparr>ID = 0, RepoID = repoID, Path = wi_Path gwt, Branch = wi_Branch gwt,
      IsMain = wi_IsMain gwt, CreatedAt = 0, DeletedAt = None,
      RepoName = [], RepoPath = []\<rparr>"

text \<open>The loop of \<^verbatim>\<open>syncWorktrees\<close> that upserts each listed worktree and collects its path.\<close>

fun upsert_each ::
  "timestamp \<Rightarrow> catalog \<Rightarrow> int \<Rightarrow> WorktreeInfo list \<Rightarrow> string list
     \<Rightarrow> error option \<times> catalog \<times> string list" where
  "upsert_each now c repoID [] existingPaths = (None, c, existingPaths)"
| "upsert_each now c repoID (gwt # rest) existingPaths =
     (case UpsertWorktree now c (listed repoID gwt) of
        Inl err \<Rightarrow> (Some err, c, existingPaths)
      | Inr (c1, _) \<Rightarrow> upsert_each now c1 repoID rest (existingPaths @ [wi_Path gwt]))"

definition syncWorktrees :: "'g env \<Rightarrow> 'g world \<Rightarrow> repo_row \<Rightarrow> error option \<times> 'g world" where
  "syncWorktrees env w repo =
     (case git_ListWorktrees env (ext w) (r_path repo) of
        Inl err \<Rightarrow> (Some err, w)
      | Inr gitWorktrees \<Rightarrow>
          (case upsert_each (clock w) (cat w) (r_id repo) gitWorktrees [] of
             (Some err, c1, _) \<Rightarrow> (Some err, w\<lparr>cat := c1\<rparr>)
           | (None, c1, existingPaths) \<Rightarrow>
               (case SoftDeleteMissingWorktrees (clock w) c1 (r_id repo) existingPaths of
                  Inl err \<Rightarrow> (Some err, w\<lparr>cat := c1\<rparr>)
                | Inr c2 \<Rightarrow> (None, w\<lparr>cat := c2\<rparr>))))"

text \<open>
  \<^verbatim>\<open>syncAllRepos\<close>: the repositories are listed once; a failed sync is a warning on
  standard error and the loop goes on; the function returns no error.
\<close>

fun sync_each :: "'g env \<Rightarrow> 'g world \<Rightarrow> repo_row list \<Rightarrow> 'g world" where
  "sync_each env w [] = w"
| "sync_each env w (repo # rest) =
     (case syncWorktrees env w repo of
        (Some err, w1) \<Rightarrow> sync_each env (emit (WarningFailedToSync (r_name repo) err) w1) rest
      | (None, w1) \<Rightarrow>
          sync_each env (w1\<lparr>cat := UpdateLastSynced (clock w1) (cat w1) (r_id repo)\<rparr>) rest)"

definition syncAllRepos :: "'g env \<Rightarrow> 'g world \<Rightarrow> error option \<times> 'g world" where
  "syncAllRepos env w = (None, sync_each env w (ListRepos (cat w)))"

text \<open>\<^verbatim>\<open>deleteWorktree\<close>, the inline delete of the selector loop.\<close>

definition deleteWorktree :: "'g env \<Rightarrow> 'g world \<Rightarrow> Worktree \<Rightarrow> error option \<times> 'g world" where
  "deleteWorktree env w wt =
     (if IsMain wt then (Some CannotDeleteMainWorktree, w)
      else
        (case Confirm w (''Delete worktree '' @ RepoName wt @ ''/'' @ Branch wt @ ''?'') of
           (Inl err, w1) \<Rightarrow> (Some err, w1)
         | (Inr confirmed, w1) \<Rightarrow>
             if \<not> confirmed then (None, w1)
             else
               (let w2 = emit RemovingWorktree w1 in
                case RemoveWorktree env (ext w2) (RepoPath wt) (Path wt) of
                  (None, g3) \<Rightarrow>
                    (None, emit WorktreeDeleted
                       (w2\<lparr>ext := g3, cat := SoftDeleteWorktree (clock w2) (cat w2) (ID wt)\<rparr>))
                | (Some _, g3) \<Rightarrow>
                    (case RemoveWorktreeForce env g3 (RepoPath wt) (Path wt) of
                       (Some err, g4) \<Rightarrow> (Some (FailedToRemoveWorktree err), w2\<lparr>ext := g4\<rparr>)
                     | (None, g4) \<Rightarrow>
                         (None, emit WorktreeDeleted
                            (w2\<lparr>ext := g4,
                                cat := SoftDeleteWorktree (clock w2) (cat w2) (ID wt)\<rparr>))))))"

text \<open>
  The second half of \<^verbatim>\<open>runRemove\<close>, from the point where the worktree to remove is known
  (the check of the main worktree, the confirmation, the removal, the soft delete);
  \<open>removeForce\<close> is the flag \<^verbatim>\<open>--force\<close>. The whole command, with the sync and the
  choice of the worktree that come first, is \<open>runRemove\<close> below, after the selector it
  calls.
\<close>

definition runRemove_worktree ::
  "'g env \<Rightarrow> bool \<Rightarrow> 'g world \<Rightarrow> Worktree \<Rightarrow> error option \<times> 'g world" where
  "runRemove_worktree env removeForce w worktree =
     (if IsMain worktree then (Some CannotRemoveMainWorktree, w)
      else
        (case Confirm w (''Remove worktree '' @ [CHR 0x27] @ RepoName worktree @ ''/''
                          @ Branch worktree @ [CHR 0x27] @ '' at '' @ Path worktree @ ''?'') of
           (Inl err, w1) \<Rightarrow> (Some err, w1)
         | (Inr confirmed, w1) \<Rightarrow>
             if \<not> confirmed then (None, emit Cancelled w1)
             else
               (let w2 = emit RemovingWorktree w1 in
                case (if removeForce
                      then RemoveWorktreeForce env (ext w2) (RepoPath worktree) (Path worktree)
                      else RemoveWorktree env (ext w2) (RepoPath worktree) (Path worktree)) of
                  (Some removeErr, g3) \<Rightarrow>
                    (Some (FailedToRemoveWorktreeUseForce removeErr), w2\<lparr>ext := g3\<rparr>)
                | (None, g3) \<Rightarrow>
                    (None, emit WorktreeRemovedSuccessfully
                       (w2\<lparr>ext := g3,
                           cat := SoftDeleteWorktree (clock w2) (cat w2) (ID worktree)\<rparr>)))))"

text \<open>\<^verbatim>\<open>ensureCurrentRepoInDB\<close>: registers the main repository of \<open>cwd\<close> if it is unknown.\<close>

definition ensureCurrentRepoInDB ::
  "'g env \<Rightarrow> 'g world \<Rightarrow> string \<Rightarrow> error option \<times> 'g world" where
  "ensureCurrentRepoInDB env w cwd =
     (case git_GetMainRepoPath env (ext w) cwd of
        Inl err \<Rightarrow> (Some (FailedToGetMainRepoPath err), w)
      | Inr mainRepoPath \<Rightarrow>
          (case GetRepoByPath (cat w) mainRepoPath of
             Some _ \<Rightarrow> (None, w)
           | None \<Rightarrow>
               (None, w\<lparr>cat := fst (UpsertRepo (clock w) (cat w)
                    \<lparr>r_id = 0, r_path = mainRepoPath, r_name = GetRepoName mainRepoPath,
                     r_worktrees_dir = GetDefaultWorktreesDir mainRepoPath,
                     r_last_synced_at = None, r_created_at = 0, r_deleted_at = None\<rparr>)\<rparr>)))"

text \<open>The directory name and the target path that \<^verbatim>\<open>runAddWithBranchFromRepo\<close> computes.\<close>

definition dirName_of :: "string \<Rightarrow> string" where
  "dirName_of branch = ReplaceAll branch (CHR ''/'') (CHR ''-'')"

definition targetPath_of :: "string \<Rightarrow> string \<Rightarrow> string" where
  "targetPath_of repoPath branch = Join (GetDefaultWorktreesDir repoPath) (dirName_of branch)"

definition runAddWithBranchFromRepo ::
  "'g env \<Rightarrow> 'g world \<Rightarrow> string \<Rightarrow> string \<Rightarrow> error option \<times> 'g world" where
  "runAddWithBranchFromRepo env w repoPath branch =
     (case db_open_error w of
        Some err \<Rightarrow> (Some (FailedToOpenDatabase err), w)
      | None \<Rightarrow>
     (case ensureCurrentRepoInDB env w repoPath of
        (Some err, w1) \<Rightarrow> (Some err, w1)
      | (None, w1) \<Rightarrow>
     (let worktreesDir = GetDefaultWorktreesDir repoPath;
          targetPath = targetPath_of repoPath branch
      in if os_Stat env (ext w1) targetPath
         then (Some (WorktreeDirectoryAlreadyExists targetPath), w1)
         else
     (case os_MkdirAll env (ext w1) worktreesDir of
        (Some err, g2) \<Rightarrow> (Some (FailedToCreateWorktreesDirectory err), w1\<lparr>ext := g2\<rparr>)
      | (None, g2) \<Rightarrow>
     (let w2 = emit (CreatingWorktree branch targetPath) (w1\<lparr>ext := g2\<rparr>) in
      case AddWorktree env (ext w2) repoPath branch targetPath of
        (Some err, g3) \<Rightarrow> (Some (FailedToCreateWorktree err), w2\<lparr>ext := g3\<rparr>)
      | (None, g3) \<Rightarrow>
     (let w3 = w2\<lparr>ext := g3\<rparr> in
      case GetRepoByPath (cat w3) repoPath of
        None \<Rightarrow> (Some FailedToGetRepoFromDatabase, w3)
      | Some repo \<Rightarrow>
     (case syncWorktrees env w3 repo of
        (Some err, w4) \<Rightarrow> (Some (FailedToSyncWorktrees err), w4)
      | (None, w4) \<Rightarrow>
          (None, emit (Cd targetPath) (emit WorktreeCreatedSuccessfully w4)))))))))"

section \<open>The selector (package ui)\<close>

datatype PickerAction = ActionNone | ActionSwitch | ActionAdd | ActionBack | ActionDelete

record PickerResult =
  Action :: PickerAction
  Worktree :: "Worktree option"

text \<open>
  The messages of the event loop: a change of the window size, a key (the key types that
  \<^verbatim>\<open>Update\<close> tells apart, typed runes, and any other key), and any other message.
\<close>

datatype KeyType =
    KeyCtrlC | KeyEsc | KeyTab | KeyCtrlD | KeyEnter
  | KeyUp | KeyCtrlP | KeyDown | KeyCtrlN
  | KeyRunes string | KeyOther nat

datatype Msg = WindowSizeMsg int int | KeyMsg KeyType | OtherMsg nat

datatype Cmd = CmdNil | CmdQuit | CmdInput

text \<open>A match of \<^verbatim>\<open>fuzzy.Find\<close>.\<close>

record Match =
  Str :: string
  Index :: nat
  MatchedIndexes :: "nat list"
  Score :: int

text \<open>
  The two libraries the selector is built on are parameters: the text input of
  \<^verbatim>\<open>bubbles/textinput\<close> (its state \<open>'ti\<close>, a new input, its \<^verbatim>\<open>Update\<close> and its \<^verbatim>\<open>Value\<close>)
  and the matcher \<^verbatim>\<open>fuzzy.Find\<close> of \<^verbatim>\<open>sahilm/fuzzy\<close>.
\<close>

record 'ti uilib =
  textinput_New :: 'ti
  textinput_Update :: "'ti \<Rightarrow> Msg \<Rightarrow> 'ti"
  textinput_Value :: "'ti \<Rightarrow> string"
  fuzzy_Find :: "string \<Rightarrow> string list \<Rightarrow> Match list"

record 'ti pickerModel =
  worktrees :: "Worktree list"
  filtered :: "nat list"
  matches :: "Match list"
  cursor :: int
  input :: 'ti
  action :: PickerAction
  quitting :: bool
  height :: int

text \<open>Indexing a Go slice panics outside its range.\<close>

definition index_at :: "'a list \<Rightarrow> int \<Rightarrow> error + 'a" where
  "index_at xs i = (if 0 \<le> i \<and> i < int (length xs) then Inr (xs ! nat i) else Inl IndexOutOfRange)"

definition newPickerModel :: "'ti uilib \<Rightarrow> Worktree list \<Rightarrow> 'ti pickerModel" where
  "newPickerModel lib wts =
     \<lparr>worktrees = wts, filtered = [0..<length wts], matches = [], cursor = 0,
      input = textinput_New lib, action = ActionNone, quitting = False, height = 10\<rparr>"

definition formatWorktreeLabel :: "Worktree \<Rightarrow> string" where
  "formatWorktreeLabel wt =
     RepoName wt @ ''/'' @ Branch wt @ (if IsMain wt then '' [main]'' else [])"

definition worktreeStrings :: "'ti pickerModel \<Rightarrow> string list" where
  "worktreeStrings m = map (\<lambda>wt. formatWorktreeLabel wt @ '' '' @ Path wt) (worktrees m)"

definition updateFilter :: "'ti uilib \<Rightarrow> 'ti pickerModel \<Rightarrow> 'ti pickerModel" where
  "updateFilter lib m =
     (let query = textinput_Value lib (input m);
          m1 = (if query = [] then
                  m\<lparr>filtered := [0..<length (worktrees m)], matches := []\<rparr>
                else
                  (let ms = fuzzy_Find lib query (worktreeStrings m)
                   in m\<lparr>matches := ms, filtered := map Index ms\<rparr>))
      in if cursor m1 \<ge> int (length (filtered m1))
         then m1\<lparr>cursor := max 0 (int (length (filtered m1)) - 1)\<rparr>
         else m1)"

text \<open>The end of \<^verbatim>\<open>Update\<close>: the message goes to the text input and the filter is recomputed.\<close>

definition update_input ::
  "'ti uilib \<Rightarrow> 'ti pickerModel \<Rightarrow> Msg \<Rightarrow> error + ('ti pickerModel \<times> Cmd)" where
  "update_input lib m msg =
     Inr (updateFilter lib (m\<lparr>input := textinput_Update lib (input m) msg\<rparr>), CmdInput)"

definition quit_with :: "PickerAction \<Rightarrow> 'ti pickerModel \<Rightarrow> error + ('ti pickerModel \<times> Cmd)" where
  "quit_with a m = Inr (m\<lparr>action := a, quitting := True\<rparr>, CmdQuit)"

fun Update :: "'ti uilib \<Rightarrow> 'ti pickerModel \<Rightarrow> Msg \<Rightarrow> error + ('ti pickerModel \<times> Cmd)" where
  "Update lib m (WindowSizeMsg width h) = Inr (m\<lparr>height := min (h - 3) 20\<rparr>, CmdNil)"
| "Update lib m (KeyMsg KeyCtrlC) = quit_with ActionNone m"
| "Update lib m (KeyMsg KeyEsc) = quit_with ActionNone m"
| "Update lib m (KeyMsg KeyTab) = quit_with ActionAdd m"
| "Update lib m (KeyMsg KeyCtrlD) =
     (if length (filtered m) > 0 then
        (case index_at (filtered m) (cursor m) of
           Inl err \<Rightarrow> Inl err
         | Inr idx \<Rightarrow>
             (case index_at (worktrees m) (int idx) of
                Inl err \<Rightarrow> Inl err
              | Inr wt \<Rightarrow> if \<not> IsMain wt then quit_with ActionDelete m else Inr (m, CmdNil)))
      else Inr (m, CmdNil))"
| "Update lib m (KeyMsg KeyEnter) =
     (if length (filtered m) > 0 then quit_with ActionSwitch m
      else update_input lib m (KeyMsg KeyEnter))"
| "Update lib m (KeyMsg KeyUp) =
     Inr (if cursor m > 0 then m\<lparr>cursor := cursor m - 1\<rparr> else m, CmdNil)"
| "Update lib m (KeyMsg KeyCtrlP) =
     Inr (if cursor m > 0 then m\<lparr>cursor := cursor m - 1\<rparr> else m, CmdNil)"
| "Update lib m (KeyMsg KeyDown) =
     Inr (if cursor m < int (length (filtered m)) - 1 then m\<lparr>cursor := cursor m + 1\<rparr> else m,
          CmdNil)"
| "Update lib m (KeyMsg KeyCtrlN) =
     Inr (if cursor m < int (length (filtered m)) - 1 then m\<lparr>cursor := cursor m + 1\<rparr> else m,
          CmdNil)"
| "Update lib m msg = update_input lib m msg"

text \<open>
  \<^verbatim>\<open>tea.Program.Run\<close>: the messages are given to \<^verbatim>\<open>Update\<close> one after the other until
  it answers \<^verbatim>\<open>tea.Quit\<close>; the run fails when \<^verbatim>\<open>Update\<close> panics or the input ends first.
  The result comes with the messages not yet read.
\<close>

fun run_program ::
  "'ti uilib \<Rightarrow> 'ti pickerModel \<Rightarrow> Msg list \<Rightarrow> (error + 'ti pickerModel) \<times> Msg list" where
  "run_program lib m [] = (Inl EndOfInput, [])"
| "run_program lib m (msg # rest) =
     (case Update lib m msg of
        Inl err \<Rightarrow> (Inl err, rest)
      | Inr (m1, c) \<Rightarrow> if c = CmdQuit then (Inr m1, rest) else run_program lib m1 rest)"

definition PickWorktree ::
  "'ti uilib \<Rightarrow> Worktree list \<Rightarrow> Msg list \<Rightarrow> (error + PickerResult) \<times> Msg list" where
  "PickWorktree lib wts msgs =
     (if length wts = 0 then (Inr \<lparr>Action = ActionAdd, Worktree = None\<rparr>, msgs)
      else
        (case run_program lib (newPickerModel lib wts) msgs of
           (Inl err, rest) \<Rightarrow> (Inl err, rest)
         | (Inr result, rest) \<Rightarrow>
             if (action result = ActionSwitch \<or> action result = ActionDelete
                   \<or> action result = ActionAdd) \<and> length (filtered result) > 0
             then
               (case index_at (filtered result) (cursor result) of
                  Inl err \<Rightarrow> (Inl err, rest)
                | Inr idx \<Rightarrow>
                    (case index_at (worktrees result) (int idx) of
                       Inl err \<Rightarrow> (Inl err, rest)
                     | Inr wt \<Rightarrow> (Inr \<lparr>Action = action result, Worktree = Some wt\<rparr>, rest)))
             else (Inr \<lparr>Action = action result, Worktree = None\<rparr>, rest)))"

text \<open>\<^verbatim>\<open>PickWorktreeSimple\<close>, the selector of \<^verbatim>\<open>wt remove\<close>: only a switch gives a worktree.\<close>

definition PickWorktreeSimple ::
  "'ti uilib \<Rightarrow> Worktree list \<Rightarrow> Msg list \<Rightarrow> (error + Worktree option) \<times> Msg list" where
  "PickWorktreeSimple lib wts msgs =
     (if length wts = 0 then (Inr None, msgs)
      else
        (case run_program lib (newPickerModel lib wts) msgs of
           (Inl err, rest) \<Rightarrow> (Inl err, rest)
         | (Inr result, rest) \<Rightarrow>
             if action result = ActionSwitch \<and> length (filtered result) > 0
             then
               (case index_at (filtered result) (cursor result) of
                  Inl err \<Rightarrow> (Inl err, rest)
                | Inr idx \<Rightarrow>
                    (case index_at (worktrees result) (int idx) of
                       Inl err \<Rightarrow> (Inl err, rest)
                     | Inr wt \<Rightarrow> (Inr (Some wt), rest)))
             else (Inr None, rest)))"

text \<open>
  \<^verbatim>\<open>runRemove\<close>, the command \<^verbatim>\<open>wt remove [path]\<close>: the database is opened, the
  repository of the current directory is registered and every repository is synced; the
  worktree is then looked up by the path given, or chosen in the selector among those
  that are not main; \<open>runRemove_worktree\<close> does the rest. The result comes with the
  messages that the selector has not read.
\<close>

definition runRemove ::
  "'g env \<Rightarrow> 'ti uilib \<Rightarrow> bool \<Rightarrow> string list \<Rightarrow> 'g world \<Rightarrow> Msg list
     \<Rightarrow> (error option \<times> 'g world) \<times> Msg list" where
  "runRemove env lib removeForce args w msgs =
     (case db_open_error w of
        Some err \<Rightarrow> ((Some (FailedToOpenDatabase err), w), msgs)
      | None \<Rightarrow>
     (case os_Getwd env (ext w) of
        Inl err \<Rightarrow> ((Some (FailedToGetCurrentDirectory err), w), msgs)
      | Inr cwd \<Rightarrow>
     (case (if git_IsInsideRepo env (ext w) cwd then ensureCurrentRepoInDB env w cwd
            else (None, w)) of
        (Some err, w1) \<Rightarrow> ((Some err, w1), msgs)
      | (None, w1) \<Rightarrow>
     (case syncAllRepos env w1 of
        (Some err, w2) \<Rightarrow> ((Some err, w2), msgs)
      | (None, w2) \<Rightarrow>
          if length args > 0 then
            (case GetWorktreeByPath (cat w2) (args ! 0) of
               None \<Rightarrow> ((Some (WorktreeNotFound (args ! 0)), w2), msgs)
             | Some worktree \<Rightarrow> (runRemove_worktree env removeForce w2 worktree, msgs))
          else
            (let worktrees = ListAllWorktrees (cat w2);
                 removable = filter (\<lambda>wt. \<not> IsMain wt) worktrees
             in if length removable = 0 then ((Some NoRemovableWorktrees, w2), msgs)
                else
                  (case PickWorktreeSimple lib removable msgs of
                     (Inl err, rest) \<Rightarrow> ((Some err, w2), rest)
                   | (Inr None, rest) \<Rightarrow> ((None, w2), rest)
                   | (Inr (Some worktree), rest) \<Rightarrow>
                       (runRemove_worktree env removeForce w2 worktree, rest)))))))"

text \<open>
  The states the selector can be in: those that \<^verbatim>\<open>Update\<close> produces from the new model
  on some sequence of messages.
\<close>

fun run_updates :: "'ti uilib \<Rightarrow> 'ti pickerModel \<Rightarrow> Msg list \<Rightarrow> error + 'ti pickerModel" where
  "run_updates lib m [] = Inr m"
| "run_updates lib m (msg # rest) =
     (case Update lib m msg of
        Inl err \<Rightarrow> Inl err
      | Inr (m1, _) \<Rightarrow> run_updates lib m1 rest)"

section \<open>Notions used in the statements\<close>

text \<open>
  The constraints of the schema on the rows: \<^verbatim>\<open>path\<close> is unique and \<^verbatim>\<open>id\<close> is the
  primary key, in both tables.
\<close>

definition unique_rows :: "catalog \<Rightarrow> bool" where
  "unique_rows c \<longleftrightarrow>
     distinct (map w_path (worktrees_table c)) \<and> distinct (map w_id (worktrees_table c))
     \<and> distinct (map r_path (repos_table c)) \<and> distinct (map r_id (repos_table c))"

text \<open>The paths of the non-deleted rows that a repository owns in the catalog.\<close>

definition live_row :: "int \<Rightarrow> worktree_row \<Rightarrow> bool" where
  "live_row repoID r \<longleftrightarrow> w_repo_id r = repoID \<and> w_deleted_at r = None"

definition live_paths :: "int \<Rightarrow> catalog \<Rightarrow> string set" where
  "live_paths repoID c = set (map w_path (filter (live_row repoID) (worktrees_table c)))"

text \<open>
  What the \<^verbatim>\<open>UPDATE\<close> of \<^verbatim>\<open>SoftDeleteMissingWorktrees\<close> does when SQLite accepts it.
\<close>

definition missing_marked :: "timestamp \<Rightarrow> catalog \<Rightarrow> int \<Rightarrow> string list \<Rightarrow> catalog" where
  "missing_marked now c repoID ps =
     c\<lparr>worktrees_table :=
         map (\<lambda>r. if live_row repoID r \<and> w_path r \<notin> set ps
                   then r\<lparr>w_deleted_at := Some now\<rparr> else r) (worktrees_table c)\<rparr>"

text \<open>What the upserts of a whole listing do to one row, and the columns they never touch.\<close>

definition replay :: "int \<Rightarrow> WorktreeInfo list \<Rightarrow> worktree_row \<Rightarrow> worktree_row" where
  "replay rid L r = foldl (\<lambda>r g. upsert_row (listed rid g) r) r L"

definition same_key :: "worktree_row \<Rightarrow> worktree_row \<Rightarrow> bool" where
  "same_key r r' \<longleftrightarrow>
     w_id r = w_id r' \<and> w_path r = w_path r' \<and> w_created_at r = w_created_at r'"

text \<open>The paths that git lists for a repository; none when the listing fails.\<close>

definition listed_paths :: "'g env \<Rightarrow> 'g \<Rightarrow> repo_row \<Rightarrow> string set" where
  "listed_paths env g repo =
     (case git_ListWorktrees env g (r_path repo) of
        Inl _ \<Rightarrow> {}
      | Inr L \<Rightarrow> set (map wi_Path L))"

text \<open>
  Between two states of \<^verbatim>\<open>repos\<close>: the same ids in the same order, and a row synced at
  time \<open>t\<close> is still synced at \<open>t\<close>.
\<close>

definition synced_later :: "timestamp \<Rightarrow> repo_row list \<Rightarrow> repo_row list \<Rightarrow> bool" where
  "synced_later t rows rows' \<longleftrightarrow>
     map r_id rows' = map r_id rows \<and>
     (\<forall>i < length rows. r_last_synced_at (rows ! i) = Some t
         \<longrightarrow> r_last_synced_at (rows' ! i) = Some t)"

text \<open>
  The statements that package \<^verbatim>\<open>db\<close> sends to the catalog. Every read
  (\<^verbatim>\<open>GetWorktreeByPath\<close>, \<^verbatim>\<open>GetRepoByPath\<close>, \<^verbatim>\<open>GetRepoByID\<close>, the four listings) is a
  \<^verbatim>\<open>SELECT\<close>, which leaves the tables as they are.
\<close>

datatype statement =
    StUpsertWorktree Worktree
  | StSoftDeleteWorktree int
  | StSoftDeleteWorktreeByPath string
  | StSoftDeleteMissingWorktrees int "string list"
  | StUpsertRepo repo_row
  | StSoftDeleteRepo int
  | StUpdateLastSynced int
  | StSelect

fun exec :: "timestamp \<Rightarrow> catalog \<Rightarrow> statement \<Rightarrow> error + catalog" where
  "exec now c (StUpsertWorktree wt) =
     (case UpsertWorktree now c wt of Inl err \<Rightarrow> Inl err | Inr (c1, _) \<Rightarrow> Inr c1)"
| "exec now c (StSoftDeleteWorktree i) = Inr (SoftDeleteWorktree now c i)"
| "exec now c (StSoftDeleteWorktreeByPath p) = Inr (SoftDeleteWorktreeByPath now c p)"
| "exec now c (StSoftDeleteMissingWorktrees repoID ps) =
     SoftDeleteMissingWorktrees now c repoID ps"
| "exec now c (StUpsertRepo repo) = Inr (fst (UpsertRepo now c repo))"
| "exec now c (StSoftDeleteRepo i) = Inr (SoftDeleteRepo now c i)"
| "exec now c (StUpdateLastSynced i) = Inr (UpdateLastSynced now c i)"
| "exec now c StSelect = Inr c"

text \<open>The cursor of the selector is in range.\<close>

definition cursor_in_range :: "'ti pickerModel \<Rightarrow> bool" where
  "cursor_in_range m \<longleftrightarrow>
     0 \<le> cursor m \<and> (filtered m \<noteq> [] \<longrightarrow> cursor m < int (length (filtered m)))"

text \<open>
  The specification's words for the filter: the characters of the query occur in the
  label in the same order, and the label of a worktree is
  \<^verbatim>\<open>{repo}/{branch}[ [main]] {path}\<close>.
\<close>

fun is_subsequence :: "'a list \<Rightarrow> 'a list \<Rightarrow> bool" where
  "is_subsequence [] ys = True"
| "is_subsequence (x # xs) [] = False"
| "is_subsequence (x # xs) (y # ys) =
     (if x = y then is_subsequence xs ys else is_subsequence (x # xs) ys)"


text \<open>
  The matcher \<^verbatim>\<open>fuzzy.Find\<close> belongs to the library \<^verbatim>\<open>sahilm/fuzzy\<close>, which is not part
  of the repository. \<open>Find\<close> describes which strings that matcher keeps, and nothing else
  of it: the empty pattern matches nothing; otherwise the matcher goes through a string
  once, moves on in the pattern at a character that equals the awaited one up to letter
  case (its \<^verbatim>\<open>equalFold\<close>), and keeps the string when it has found the whole pattern. The
  matched positions, the scores and the ranking by score are left out: the matches come in
  the order of the data. Characters are bytes, and the letters folded are those of ASCII;
  this is the matcher's comparison on text that is ASCII and has no NUL byte, which
  \<open>ascii_text\<close> says.
\<close>

definition fold_case :: "char \<Rightarrow> char" where
  "fold_case c =
     (case map_of (zip ''ABCDEFGHIJKLMNOPQRSTUVWXYZ'' ''abcdefghijklmnopqrstuvwxyz'') c of
        Some l \<Rightarrow> l
      | None \<Rightarrow> c)"

definition equalFold :: "char \<Rightarrow> char \<Rightarrow> bool" where
  "equalFold a b \<longleftrightarrow> fold_case a = fold_case b"

fun matches_fold :: "string \<Rightarrow> string \<Rightarrow> bool" where
  "matches_fold [] s = True"
| "matches_fold (p # ps) [] = False"
| "matches_fold (p # ps) (c # cs) =
     (if equalFold p c then matches_fold ps cs else matches_fold (p # ps) cs)"

definition Find :: "string \<Rightarrow> string list \<Rightarrow> Match list" where
  "Find pattern data =
     (if length pattern = 0 then []
      else map (\<lambda>i. \<lparr>Str = data ! i, Index = i, MatchedIndexes = [], Score = 0\<rparr>)
               (filter (\<lambda>i. matches_fold pattern (data ! i)) [0..<length data]))"


text \<open>
  The user confirms: the terminal can be put in raw mode and the next byte on standard
  input is a carriage return or a line feed.
\<close>

definition confirms :: "'g world \<Rightarrow> bool" where
  "confirms w \<longleftrightarrow>
     make_raw_error w = None \<and> (\<exists>b bs. stdin w = b # bs \<and> (b = 13 \<or> b = 10))"

text \<open>
  Two runs leave the same state behind: the same catalog, the same outside state and the
  same input left. The lines printed differ between \<^verbatim>\<open>deleteWorktree\<close> and \<^verbatim>\<open>runRemove\<close>
  and are not compared; what the runs return is compared in the statements.
\<close>

definition same_effect :: "'g world \<Rightarrow> 'g world \<Rightarrow> bool" where
  "same_effect a b \<longleftrightarrow> cat a = cat b \<and> ext a = ext b \<and> stdin a = stdin b"

text \<open>
  What \<^verbatim>\<open>runRemove\<close> does between opening the database and looking for the worktree,
  which the source calls the sync phase: the repository of the current directory is
  registered, then all repositories are synced.
\<close>

definition sync_phase :: "'g env \<Rightarrow> 'g world \<Rightarrow> string \<Rightarrow> error option \<times> 'g world" where
  "sync_phase env w cwd =
     (case (if git_IsInsideRepo env (ext w) cwd then ensureCurrentRepoInDB env w cwd
            else (None, w)) of
        (Some err, w1) \<Rightarrow> (Some err, w1)
      | (None, w1) \<Rightarrow> syncAllRepos env w1)"

text \<open>
  The parts of \<open>Clean\<close>: whether the path is rooted, its elements, and the stack of
  elements that remain; a stack is normal when \<^verbatim>\<open>..\<close> occurs only at its bottom, and not
  at all under a root.
\<close>

definition is_rooted :: "string \<Rightarrow> bool" where
  "is_rooted p \<longleftrightarrow> p \<noteq> [] \<and> hd p = CHR ''/''"

definition path_elems :: "string \<Rightarrow> string list" where
  "path_elems p = filter (\<lambda>e. e \<noteq> [] \<and> e \<noteq> ''.'') (split_slash p)"

definition path_stack :: "string \<Rightarrow> string list" where
  "path_stack p = foldl (clean_step (is_rooted p)) [] (path_elems p)"

definition normal_stack :: "bool \<Rightarrow> string list \<Rightarrow> bool" where
  "normal_stack r st \<longleftrightarrow>
     (\<exists>k rest. st = replicate k ''..'' @ rest \<and> ''..'' \<notin> set rest \<and> (r \<longrightarrow> k = 0))"

section \<open>A small installation\<close>

text \<open>
  One repository \<^verbatim>\<open>/A\<close> with its main worktree and three linked ones on disk
  (\<^verbatim>\<open>feature-x\<close> has uncommitted changes, so git removes it only when forced), and a
  second repository \<^verbatim>\<open>/gone\<close> that git can no longer list. The catalog knows
  \<^verbatim>\<open>feature-x\<close> and \<^verbatim>\<open>feature-z\<close>, not yet \<^verbatim>\<open>feature-y\<close>; it still lists \<^verbatim>\<open>stale\<close>,
  which has left the disk, and keeps the tombstone of \<^verbatim>\<open>old\<close>.
\<close>

record disk =
  dirs :: "string list"
  dirty :: "string list"

definition demo_listing :: "WorktreeInfo list" where
  "demo_listing =
     [\<lparr>wi_Path = ''/A'', wi_Branch = ''main'', wi_IsMain = True\<rparr>,
      \<lparr>wi_Path = ''/A.worktrees/feature-x'', wi_Branch = ''feature-x'', wi_IsMain = False\<rparr>,
      \<lparr>wi_Path = ''/A.worktrees/feature-y'', wi_Branch = ''feature-y'', wi_IsMain = False\<rparr>,
      \<lparr>wi_Path = ''/A.worktrees/feature-z'', wi_Branch = ''feature-z'', wi_IsMain = False\<rparr>]"

definition demo_git_Run :: "disk \<Rightarrow> string \<Rightarrow> string list \<Rightarrow> error option \<times> disk" where
  "demo_git_Run g dir args =
     (if ''remove'' \<in> set args \<and> last args \<in> set (dirs g)
         \<and> (last args \<notin> set (dirty g) \<or> ''--force'' \<in> set args)
      then (None, g\<lparr>dirs := removeAll (last args) (dirs g)\<rparr>)
      else (Some (ExternalError ''exit status 128''), g))"

definition demo_env :: "disk env" where
  "demo_env =
     \<lparr>git_Run = demo_git_Run,
      git_ListWorktrees =
        (\<lambda>g repoPath. if repoPath = ''/A''
                       then Inr (filter (\<lambda>i. wi_Path i \<in> set (dirs g)) demo_listing)
                       else Inl (ExternalError ''exit status 128'')),
      git_GetMainRepoPath = (\<lambda>g cwd. Inr cwd),
      git_IsInsideRepo = (\<lambda>g p. p \<in> set (dirs g)),
      os_Stat = (\<lambda>g p. p \<in> set (dirs g)),
      os_MkdirAll = (\<lambda>g p. (None, if p \<in> set (dirs g) then g else g\<lparr>dirs := dirs g @ [p]\<rparr>)),
      os_Getwd = (\<lambda>g. Inr ''/A'')\<rparr>"

definition repo_A :: repo_row where
  "repo_A = \<lparr>r_id = 1, r_path = ''/A'', r_name = ''A'', r_worktrees_dir = ''/A.worktrees'',
             r_last_synced_at = None, r_created_at = 1, r_deleted_at = None\<rparr>"

definition repo_B :: repo_row where
  "repo_B = \<lparr>r_id = 2, r_path = ''/gone'', r_name = ''B'',
             r_worktrees_dir = ''/gone.worktrees'',
             r_last_synced_at = None, r_created_at = 2, r_deleted_at = None\<rparr>"

definition demo_catalog :: catalog where
  "demo_catalog =
     \<lparr>repos_table = [repo_A, repo_B],
      worktrees_table =
        [\<lparr>w_id = 1, w_repo_id = 1, w_path = ''/A'', w_branch = ''main'', w_is_main = True,
          w_created_at = 1, w_deleted_at = None\<rparr>,
         \<lparr>w_id = 2, w_repo_id = 1, w_path = ''/A.worktrees/feature-x'',
          w_branch = ''feature-x'', w_is_main = False, w_created_at = 1,
          w_deleted_at = None\<rparr>,
         \<lparr>w_id = 3, w_repo_id = 1, w_path = ''/A.worktrees/old'', w_branch = ''old'',
          w_is_main = False, w_created_at = 1, w_deleted_at = Some 5\<rparr>,
         \<lparr>w_id = 4, w_repo_id = 1, w_path = ''/A.worktrees/stale'', w_branch = ''stale'',
          w_is_main = False, w_created_at = 1, w_deleted_at = None\<rparr>,
         \<lparr>w_id = 5, w_repo_id = 1, w_path = ''/A.worktrees/feature-z'',
          w_branch = ''feature-z'', w_is_main = False, w_created_at = 1,
          w_deleted_at = None\<rparr>]\<rparr>"

definition demo_world :: "disk world" where
  "demo_world =
     \<lparr>cat = demo_catalog,
      ext = \<lparr>dirs = [''/A'', ''/A.worktrees/feature-x'', ''/A.worktrees/feature-y'',
                     ''/A.worktrees/feature-z''],
             dirty = [''/A.worktrees/feature-x'']\<rparr>,
      clock = 100, db_open_error = None, make_raw_error = None, stdin = [13], out = []\<rparr>"

definition main_A :: Worktree where
  "main_A = \<lparr>ID = 1, RepoID = 1, Path = ''/A'', Branch = ''main'', IsMain = True,
             CreatedAt = 1, DeletedAt = None, RepoName = ''A'', RepoPath = ''/A''\<rparr>"

definition feature_x :: Worktree where
  "feature_x = \<lparr>ID = 2, RepoID = 1, Path = ''/A.worktrees/feature-x'', Branch = ''feature-x'',
                IsMain = False, CreatedAt = 1, DeletedAt = None, RepoName = ''A'',
                RepoPath = ''/A''\<rparr>"

definition feature_z :: Worktree where
  "feature_z = \<lparr>ID = 5, RepoID = 1, Path = ''/A.worktrees/feature-z'', Branch = ''feature-z'',
                IsMain = False, CreatedAt = 1, DeletedAt = None, RepoName = ''A'',
                RepoPath = ''/A''\<rparr>"

definition stale :: Worktree where
  "stale = \<lparr>ID = 4, RepoID = 1, Path = ''/A.worktrees/stale'', Branch = ''stale'',
            IsMain = False, CreatedAt = 1, DeletedAt = None, RepoName = ''A'',
            RepoPath = ''/A''\<rparr>"

text \<open>A text input that appends the typed runes, with the matcher \<open>Find\<close>.\<close>

definition demo_lib :: "string uilib" where
  "demo_lib =
     \<lparr>textinput_New = [],
      textinput_Update = (\<lambda>v msg. case msg of KeyMsg (KeyRunes s) \<Rightarrow> v @ s | _ \<Rightarrow> v),
      textinput_Value = (\<lambda>v. v),
      fuzzy_Find = Find\<rparr>"

text \<open>A disk on which the target of \<^verbatim>\<open>wt add feature/foo\<close> in \<^verbatim>\<open>/r\<close> is already there.\<close>

definition occupied_world :: "disk world" where
  "occupied_world =
     \<lparr>cat = \<lparr>repos_table = [], worktrees_table = []\<rparr>,
      ext = \<lparr>dirs = [''/r'', ''/r.worktrees/feature-foo''], dirty = []\<rparr>,
      clock = 100, db_open_error = None, make_raw_error = None, stdin = [], out = []\<rparr>"

section \<open>Properties\<close>

lemmas demo_defs = demo_env_def demo_world_def demo_catalog_def demo_listing_def repo_A_def
  repo_B_def main_A_def feature_x_def feature_z_def demo_git_Run_def demo_lib_def

lemmas db_defs = UpsertWorktree_def upsert_row_def next_rowid_def
  SoftDeleteMissingWorktrees_def SQLITE_MAX_VARIABLE_NUMBER_def SoftDeleteWorktree_def
  UpdateLastSynced_def Let_def

subsection \<open>Convergence of a sync\<close>

lemma upsert_row_path [simp]: "w_path (upsert_row wt r) = w_path r"
  by (simp add: upsert_row_def)

lemma upsert_row_live [simp]:
  "live_row (RepoID wt) (upsert_row wt r) \<longleftrightarrow> w_path r = Path wt \<or> live_row (RepoID wt) r"
  by (simp add: upsert_row_def live_row_def)

lemma UpsertWorktree_rows:
  assumes "UpsertWorktree now c wt = Inr (c1, wt1)"
  shows "(Path wt \<in> w_path ` set (worktrees_table c) \<and>
            worktrees_table c1 = map (upsert_row wt) (worktrees_table c))
       \<or> (Path wt \<notin> w_path ` set (worktrees_table c) \<and>
            (\<exists>row. worktrees_table c1 = worktrees_table c @ [row] \<and> w_path row = Path wt
                 \<and> w_repo_id row = RepoID wt \<and> w_branch row = Branch wt
                 \<and> w_is_main row = IsMain wt \<and> w_deleted_at row = None))"
proof (cases "find (\<lambda>r. w_path r = Path wt) (worktrees_table c)")
  case None
  then have "Path wt \<notin> w_path ` set (worktrees_table c)"
    by (auto simp: find_None_iff)
  with None assms show ?thesis
    by (auto simp: UpsertWorktree_def Let_def split: if_splits)
next
  case (Some hit)
  then have "Path wt \<in> w_path ` set (worktrees_table c)"
    by (auto simp: find_Some_iff image_iff) (metis nth_mem)
  with Some assms show ?thesis
    by (auto simp: UpsertWorktree_def Let_def split: if_splits)
qed

lemma UpsertWorktree_live:
  assumes "UpsertWorktree now c wt = Inr (c1, wt1)"
  shows "live_paths (RepoID wt) c1 = insert (Path wt) (live_paths (RepoID wt) c)"
proof -
  from UpsertWorktree_rows [OF assms] show ?thesis
  proof (elim disjE conjE exE)
    assume a: "Path wt \<in> w_path ` set (worktrees_table c)"
      and b: "worktrees_table c1 = map (upsert_row wt) (worktrees_table c)"
    have "live_paths (RepoID wt) c1 =
          set (map w_path (filter (\<lambda>r. w_path r = Path wt \<or> live_row (RepoID wt) r) (worktrees_table c)))"
      unfolding live_paths_def b by (simp add: filter_map comp_def)
    also have "\<dots> = insert (Path wt) (live_paths (RepoID wt) c)"
      using a unfolding live_paths_def by auto
    finally show ?thesis .
  next
    fix row
    assume "Path wt \<notin> w_path ` set (worktrees_table c)"
      and "worktrees_table c1 = worktrees_table c @ [row]" "w_path row = Path wt"
      "w_repo_id row = RepoID wt" "w_deleted_at row = None"
    then show ?thesis unfolding live_paths_def live_row_def by auto
  qed
qed

lemma SoftDeleteMissing_cases:
  "SoftDeleteMissingWorktrees now c rid ps =
     (if ps \<noteq> [] \<and> length ps + 1 > SQLITE_MAX_VARIABLE_NUMBER then Inl TooManySQLVariables
      else Inr (missing_marked now c rid ps))"
  by (simp add: SoftDeleteMissingWorktrees_def missing_marked_def live_row_def)

lemma SoftDeleteMissing_Inr:
  "SoftDeleteMissingWorktrees now c rid ps = Inr c2 \<Longrightarrow> c2 = missing_marked now c rid ps"
  by (simp add: SoftDeleteMissing_cases split: if_splits)

lemma sdm_rows:
  "map w_path (filter (live_row rid)
      (map (\<lambda>r. if live_row rid r \<and> w_path r \<notin> set ps
                then r\<lparr>w_deleted_at := Some now\<rparr> else r) rows))
   = filter (\<lambda>p. p \<in> set ps) (map w_path (filter (live_row rid) rows))"
  by (induction rows) (simp_all add: live_row_def)

lemma SoftDeleteMissing_live:
  "live_paths repoID (missing_marked now c repoID ps) = live_paths repoID c \<inter> set ps"
  by (simp add: live_paths_def missing_marked_def sdm_rows Int_def conj_commute)

lemma upsert_each_live:
  "upsert_each now c rid L acc = (None, c1, ps) \<Longrightarrow>
     live_paths rid c1 = live_paths rid c \<union> set (map wi_Path L) \<and> ps = acc @ map wi_Path L"
proof (induction L arbitrary: c acc)
  case Nil
  then show ?case by simp
next
  case (Cons g L)
  from Cons.prems obtain c' wt' where
    u: "UpsertWorktree now c (listed rid g) = Inr (c', wt')"
    and r: "upsert_each now c' rid L (acc @ [wi_Path g]) = (None, c1, ps)"
    by (auto split: sum.splits)
  from UpsertWorktree_live [OF u] have "live_paths rid c' = insert (wi_Path g) (live_paths rid c)"
    by simp
  with Cons.IH [OF r] show ?case by auto
qed

lemma UpsertWorktree_keeps:
  assumes "UpsertWorktree now c wt = Inr (c1, wt1)" "r \<in> set (worktrees_table c)" "w_path r \<noteq> Path wt"
  shows "r \<in> set (worktrees_table c1)"
proof -
  have "upsert_row wt r = r" using assms(3) by (simp add: upsert_row_def)
  with UpsertWorktree_rows [OF assms(1)] assms(2) show ?thesis
    by (auto simp: image_iff) (metis)
qed

lemma upsert_each_keeps:
  "upsert_each now c rid L acc = (None, c1, ps) \<Longrightarrow> r \<in> set (worktrees_table c) \<Longrightarrow>
     w_path r \<notin> set (map wi_Path L) \<Longrightarrow> r \<in> set (worktrees_table c1)"
proof (induction L arbitrary: c acc)
  case Nil
  then show ?case by simp
next
  case (Cons g L)
  from Cons.prems(1) obtain c' wt' where
    u: "UpsertWorktree now c (listed rid g) = Inr (c', wt')"
    and r: "upsert_each now c' rid L (acc @ [wi_Path g]) = (None, c1, ps)"
    by (auto split: sum.splits)
  from UpsertWorktree_keeps [OF u Cons.prems(2)] Cons.prems(3) have "r \<in> set (worktrees_table c')"
    by simp
  from Cons.IH [OF r this] Cons.prems(3) show ?case by simp
qed

lemma SoftDeleteMissing_marks:
  assumes "r \<in> set (worktrees_table c)" "live_row rid r" "w_path r \<notin> set ps"
  shows "r\<lparr>w_deleted_at := Some now\<rparr> \<in> set (worktrees_table (missing_marked now c rid ps))"
  using assms by (auto simp: missing_marked_def image_iff intro!: bexI [of _ r])

text \<open>
  C1 (convergence). When \<^verbatim>\<open>syncWorktrees\<close> succeeds for a repository whose live listing is
  \<open>L\<close>, the paths of the non-deleted rows that the repository owns in the catalog are
  exactly the paths of \<open>L\<close>: every listed path has such a row, and every row the
  repository owned before whose path is not listed now carries a tombstone.
\<close>

theorem syncWorktrees_converges:
  assumes "git_ListWorktrees env (ext w) (r_path repo) = Inr L"
    and "syncWorktrees env w repo = (None, w1)"
  shows "live_paths (r_id repo) (cat w1) = set (map wi_Path L)
       \<and> (\<forall>r \<in> set (worktrees_table (cat w)).
             live_row (r_id repo) r \<and> w_path r \<notin> set (map wi_Path L) \<longrightarrow>
             r\<lparr>w_deleted_at := Some (clock w)\<rparr> \<in> set (worktrees_table (cat w1)))"
proof -
  from assms obtain c1 ps c2 where
    u: "upsert_each (clock w) (cat w) (r_id repo) L [] = (None, c1, ps)"
    and sd: "SoftDeleteMissingWorktrees (clock w) c1 (r_id repo) ps = Inr c2"
    and w2: "w1 = w\<lparr>cat := c2\<rparr>"
    by (auto simp: syncWorktrees_def split: sum.splits option.splits prod.splits)
  from SoftDeleteMissing_Inr [OF sd] w2
  have w1: "w1 = w\<lparr>cat := missing_marked (clock w) c1 (r_id repo) ps\<rparr>" by simp
  from upsert_each_live [OF u] have
    lv: "live_paths (r_id repo) c1 = live_paths (r_id repo) (cat w) \<union> set (map wi_Path L)"
    and ps: "ps = map wi_Path L" by simp_all
  have a: "live_paths (r_id repo) (cat w1) = set (map wi_Path L)"
    unfolding w1 by (simp add: SoftDeleteMissing_live lv ps Int_absorb1)
  have b: "r\<lparr>w_deleted_at := Some (clock w)\<rparr> \<in> set (worktrees_table (cat w1))"
    if "r \<in> set (worktrees_table (cat w))" "live_row (r_id repo) r"
      "w_path r \<notin> set (map wi_Path L)" for r
  proof -
    from upsert_each_keeps [OF u that(1) that(3)] have "r \<in> set (worktrees_table c1)" .
    from SoftDeleteMissing_marks [OF this that(2)] that(3) show ?thesis
      unfolding w1 ps by simp
  qed
  from a b show ?thesis by blast
qed

theorem syncWorktrees_converges_witness:
  "git_ListWorktrees demo_env (ext demo_world) (r_path repo_A) = Inr demo_listing
   \<and> fst (syncWorktrees demo_env demo_world repo_A) = None
   \<and> live_paths 1 (cat (snd (syncWorktrees demo_env demo_world repo_A)))
       = {''/A'', ''/A.worktrees/feature-x'', ''/A.worktrees/feature-y'',
          ''/A.worktrees/feature-z''}"
proof -
  have l: "git_ListWorktrees demo_env (ext demo_world) (r_path repo_A) = Inr demo_listing"
    by (simp add: demo_defs)
  have f: "fst (syncWorktrees demo_env demo_world repo_A) = None"
    by (simp add: syncWorktrees_def demo_defs db_defs)
  then have s: "syncWorktrees demo_env demo_world repo_A
                  = (None, snd (syncWorktrees demo_env demo_world repo_A))"
    by (simp add: prod_eq_iff)
  from syncWorktrees_converges [OF l s]
  have "live_paths (r_id repo_A) (cat (snd (syncWorktrees demo_env demo_world repo_A)))
          = set (map wi_Path demo_listing)"
    by blast
  with l f show ?thesis by (simp add: demo_listing_def repo_A_def)
qed

subsection \<open>Idempotence of a sync\<close>

lemma replay_Nil [simp]: "replay rid [] r = r" by (simp add: replay_def)

lemma replay_Cons [simp]: "replay rid (g # L) r = replay rid L (upsert_row (listed rid g) r)"
  by (simp add: replay_def)

lemma replay_snoc [simp]: "replay rid (L @ [g]) r = upsert_row (listed rid g) (replay rid L r)"
  by (simp add: replay_def)

lemma same_key_upsert_row: "same_key (upsert_row wt r) r"
  by (simp add: same_key_def upsert_row_def)

lemma same_key_replay: "same_key (replay rid L r) r"
  by (induction L arbitrary: r) (auto simp: same_key_def upsert_row_def)

lemma replay_path [simp]: "w_path (replay rid L r) = w_path r"
  using same_key_replay [of rid L r] by (simp add: same_key_def)

lemma upsert_row_absorb:
  "same_key r r' \<Longrightarrow> w_path r = Path wt \<Longrightarrow> upsert_row wt r = upsert_row wt r'"
  by (cases r; cases r') (simp add: same_key_def upsert_row_def)

lemma upsert_row_other: "w_path r \<noteq> Path wt \<Longrightarrow> upsert_row wt r = r"
  by (simp add: upsert_row_def)

lemma upsert_row_idem: "upsert_row wt (upsert_row wt r) = upsert_row wt r"
  by (simp add: upsert_row_def)

lemma replay_other: "w_path r \<notin> set (map wi_Path L) \<Longrightarrow> replay rid L r = r"
  by (induction L arbitrary: r) (auto simp: upsert_row_def)

lemma UpsertWorktree_row_cases:
  assumes "UpsertWorktree now c wt = Inr (c1, wt1)" "r \<in> set (worktrees_table c1)"
  shows "(\<exists>r' \<in> set (worktrees_table c). r = upsert_row wt r')
       \<or> (w_path r = Path wt \<and> w_repo_id r = RepoID wt \<and> w_branch r = Branch wt
            \<and> w_is_main r = IsMain wt \<and> w_deleted_at r = None)"
proof -
  from UpsertWorktree_rows [OF assms(1)] show ?thesis
  proof (elim disjE conjE exE)
    assume "worktrees_table c1 = map (upsert_row wt) (worktrees_table c)"
    with assms(2) show ?thesis by auto
  next
    fix row
    assume n: "Path wt \<notin> w_path ` set (worktrees_table c)"
      and a: "worktrees_table c1 = worktrees_table c @ [row]"
      and f: "w_path row = Path wt" "w_repo_id row = RepoID wt" "w_branch row = Branch wt"
        "w_is_main row = IsMain wt" "w_deleted_at row = None"
    from assms(2) a have "r \<in> set (worktrees_table c) \<or> r = row" by auto
    then show ?thesis
    proof
      assume r: "r \<in> set (worktrees_table c)"
      with n have "w_path r \<noteq> Path wt" by (metis imageI)
      then have "r = upsert_row wt r" by (simp add: upsert_row_other)
      with r show ?thesis by blast
    next
      assume "r = row"
      with f show ?thesis by simp
    qed
  qed
qed

lemma upsert_each_snoc:
  "upsert_each now c rid (L @ [g]) acc =
     (case upsert_each now c rid L acc of
        (Some e, c', ps) \<Rightarrow> (Some e, c', ps)
      | (None, c', ps) \<Rightarrow> upsert_each now c' rid [g] ps)"
  by (induction L arbitrary: c acc) (auto split: sum.splits option.splits prod.splits)

lemma upsert_each_fixed:
  "upsert_each now c rid L acc = (None, c1, ps) \<Longrightarrow>
     r \<in> set (worktrees_table c1) \<Longrightarrow> w_path r \<in> set (map wi_Path L) \<Longrightarrow> replay rid L r = r"
proof (induction L arbitrary: c1 ps r rule: rev_induct)
  case Nil
  then show ?case by simp
next
  case (snoc g L)
  from snoc.prems(1) obtain c' ps' wt' where
    l: "upsert_each now c rid L acc = (None, c', ps')"
    and u: "UpsertWorktree now c' (listed rid g) = Inr (c1, wt')"
    by (auto simp: upsert_each_snoc split: sum.splits option.splits prod.splits)
  have fix': "replay rid L r' = r'" if "r' \<in> set (worktrees_table c')" for r'
  proof (cases "w_path r' \<in> set (map wi_Path L)")
    case True
    from snoc.IH [OF l that True] show ?thesis by simp
  next
    case False
    then show ?thesis by (rule replay_other)
  qed
  from UpsertWorktree_row_cases [OF u snoc.prems(2)]
  consider r' where "r' \<in> set (worktrees_table c')" "r = upsert_row (listed rid g) r'"
    | "w_path r = wi_Path g" "w_repo_id r = rid" "w_branch r = wi_Branch g"
      "w_is_main r = wi_IsMain g" "w_deleted_at r = None"
    by auto
  then show ?case
  proof cases
    case 1
    show ?thesis
    proof (cases "w_path r' = wi_Path g")
      case True
      have "upsert_row (listed rid g) (replay rid L r) = upsert_row (listed rid g) r"
        by (rule upsert_row_absorb) (use 1 True in \<open>simp_all add: same_key_replay\<close>)
      then show ?thesis using 1 by (simp add: upsert_row_idem)
    next
      case False
      then have "r = r'" using 1 by (simp add: upsert_row_other)
      with fix' [OF 1(1)] False show ?thesis by (simp add: upsert_row_other)
    qed
  next
    case 2
    have "upsert_row (listed rid g) (replay rid L r) = upsert_row (listed rid g) r"
      by (rule upsert_row_absorb) (use 2 in \<open>simp_all add: same_key_replay\<close>)
    also have "\<dots> = r" using 2 by (cases r) (simp add: upsert_row_def)
    finally show ?thesis by simp
  qed
qed

lemma find_path_Some:
  "p \<in> w_path ` set rows \<Longrightarrow> \<exists>hit. find (\<lambda>r. w_path r = p) rows = Some hit"
  by (cases "find (\<lambda>r. w_path r = p) rows") (auto simp: find_None_iff)

lemma upsert_each_repos:
  "upsert_each now c rid L acc = (e, c1, ps) \<Longrightarrow> repos_table c1 = repos_table c"
proof (induction L arbitrary: c acc)
  case Nil
  then show ?case by simp
next
  case (Cons g L)
  show ?case
  proof (cases "UpsertWorktree now c (listed rid g)")
    case (Inl err)
    with Cons.prems show ?thesis by simp
  next
    case (Inr p)
    then obtain c' wt' where u: "UpsertWorktree now c (listed rid g) = Inr (c', wt')" by (cases p) simp
    then have "repos_table c' = repos_table c"
      by (auto simp: UpsertWorktree_def Let_def split: if_splits option.splits)
    moreover from Cons.prems u have "upsert_each now c' rid L (acc @ [wi_Path g]) = (e, c1, ps)" by simp
    ultimately show ?thesis using Cons.IH by simp
  qed
qed

lemma upsert_each_fk:
  "upsert_each now c rid L acc = (None, c1, ps) \<Longrightarrow> L \<noteq> [] \<Longrightarrow> rid \<in> set (map r_id (repos_table c))"
  by (cases L) (auto simp: UpsertWorktree_def split: sum.splits if_splits)

lemma upsert_each_present:
  "set (map wi_Path L) \<subseteq> w_path ` set (worktrees_table c) \<Longrightarrow>
   L = [] \<or> rid \<in> set (map r_id (repos_table c)) \<Longrightarrow>
   upsert_each now c rid L acc =
     (None, c\<lparr>worktrees_table := map (replay rid L) (worktrees_table c)\<rparr>, acc @ map wi_Path L)"
proof (induction L arbitrary: c acc)
  case Nil
  then show ?case by simp
next
  case (Cons g L)
  from Cons.prems(1) have "wi_Path g \<in> w_path ` set (worktrees_table c)" by simp
  from find_path_Some [OF this] obtain hit where
    h: "find (\<lambda>r. w_path r = wi_Path g) (worktrees_table c) = Some hit" ..
  from Cons.prems(2) have fk: "rid \<in> set (map r_id (repos_table c))" by simp
  let ?c' = "c\<lparr>worktrees_table := map (upsert_row (listed rid g)) (worktrees_table c)\<rparr>"
  from h fk have u: "UpsertWorktree now c (listed rid g)
      = Inr (?c', (listed rid g)\<lparr>ID := w_id hit, CreatedAt := w_created_at hit\<rparr>)"
    by (simp add: UpsertWorktree_def)
  have p: "set (map wi_Path L) \<subseteq> w_path ` set (worktrees_table ?c')"
    using Cons.prems(1) by (simp add: image_image)
  have f: "L = [] \<or> rid \<in> set (map r_id (repos_table ?c'))" using fk by simp
  from Cons.IH [OF p f] u show ?case by (simp add: comp_def)
qed

lemma SoftDeleteMissing_rows:
  "worktrees_table (missing_marked now c rid ps) =
     map (\<lambda>r. if live_row rid r \<and> w_path r \<notin> set ps then r\<lparr>w_deleted_at := Some now\<rparr> else r)
         (worktrees_table c)"
  by (simp add: missing_marked_def)

lemma map_path_keep:
  "(\<And>r. w_path (f r) = w_path r) \<Longrightarrow> map w_path (map f rows) = map w_path rows"
  by (induction rows) simp_all

lemma SoftDeleteMissing_paths:
  "w_path ` set (worktrees_table (missing_marked now c rid ps))
     = w_path ` set (worktrees_table c)"
proof -
  have "map w_path (worktrees_table (missing_marked now c rid ps))
          = map w_path (worktrees_table c)"
    unfolding SoftDeleteMissing_rows by (rule map_path_keep) simp
  then have "set (map w_path (worktrees_table (missing_marked now c rid ps)))
          = set (map w_path (worktrees_table c))"
    by (rule arg_cong)
  then show ?thesis by (simp only: set_map)
qed

lemma SoftDeleteMissing_repos [simp]:
  "repos_table (missing_marked now c rid ps) = repos_table c"
  by (simp add: missing_marked_def)

lemma catalog_eqI: "repos_table c = repos_table c' \<Longrightarrow> worktrees_table c = worktrees_table c' \<Longrightarrow> c = c'"
  for c c' :: catalog
  by (cases c; cases c') simp

lemma SoftDeleteMissing_again:
  "missing_marked now' (missing_marked now c rid ps) rid ps = missing_marked now c rid ps"
  by (rule catalog_eqI) (simp_all add: SoftDeleteMissing_rows live_row_def comp_def)

text \<open>
  C2 (idempotence). After a successful \<^verbatim>\<open>syncWorktrees\<close>, a second run for the same
  repository with the outside state unchanged succeeds and leaves the whole catalog as the
  first run left it, at whatever time it runs: the same non-deleted rows, no new tombstone,
  no new row.
\<close>

theorem syncWorktrees_idempotent:
  assumes "syncWorktrees env w repo = (None, w1)"
  shows "syncWorktrees env (w1\<lparr>clock := t\<rparr>) repo = (None, w1\<lparr>clock := t\<rparr>)"
proof -
  let ?rid = "r_id repo"
  from assms obtain L c1 ps c2 where
    l: "git_ListWorktrees env (ext w) (r_path repo) = Inr L"
    and u: "upsert_each (clock w) (cat w) ?rid L [] = (None, c1, ps)"
    and sd: "SoftDeleteMissingWorktrees (clock w) c1 ?rid ps = Inr c2"
    and w2: "w1 = w\<lparr>cat := c2\<rparr>"
    by (auto simp: syncWorktrees_def split: sum.splits option.splits prod.splits)
  let ?s = "missing_marked (clock w) c1 ?rid ps"
  from SoftDeleteMissing_Inr [OF sd] w2 have w1: "w1 = w\<lparr>cat := ?s\<rparr>" by simp
  from sd have sd2: "SoftDeleteMissingWorktrees t ?s ?rid ps = Inr (missing_marked t ?s ?rid ps)"
    by (simp add: SoftDeleteMissing_cases split: if_splits)
  from upsert_each_live [OF u] have ps: "ps = map wi_Path L"
    and lv: "set (map wi_Path L) \<subseteq> live_paths ?rid c1" by auto
  have paths1: "set (map wi_Path L) \<subseteq> w_path ` set (worktrees_table c1)"
    using lv by (auto simp: live_paths_def)
  have paths: "set (map wi_Path L) \<subseteq> w_path ` set (worktrees_table ?s)"
    using paths1 by (simp add: SoftDeleteMissing_paths)
  have fk: "L = [] \<or> ?rid \<in> set (map r_id (repos_table ?s))"
    using upsert_each_fk [OF u] upsert_each_repos [OF u] by auto
  have fixed: "replay ?rid L r = r" if "r \<in> set (worktrees_table ?s)" for r
  proof (cases "w_path r \<in> set (map wi_Path L)")
    case False
    then show ?thesis by (rule replay_other)
  next
    case True
    with that have "r \<in> set (worktrees_table c1)"
      by (auto simp: SoftDeleteMissing_rows ps split: if_splits)
    from upsert_each_fixed [OF u this True] show ?thesis .
  qed
  then have "map (replay ?rid L) (worktrees_table ?s) = worktrees_table ?s"
    by (simp add: map_idI)
  then have same: "?s\<lparr>worktrees_table := map (replay ?rid L) (worktrees_table ?s)\<rparr> = ?s"
    by simp
  from upsert_each_present [OF paths fk, of t "[]"] same
  have u2: "upsert_each t ?s ?rid L [] = (None, ?s, ps)" by (simp add: ps)
  show ?thesis
    unfolding w1 using l u2 sd2 by (simp add: syncWorktrees_def SoftDeleteMissing_again)
qed

theorem syncWorktrees_idempotent_witness:
  "fst (syncWorktrees demo_env demo_world repo_A) = None
   \<and> syncWorktrees demo_env ((snd (syncWorktrees demo_env demo_world repo_A))\<lparr>clock := 200\<rparr>)
         repo_A
       = (None, (snd (syncWorktrees demo_env demo_world repo_A))\<lparr>clock := 200\<rparr>)"
proof -
  have f: "fst (syncWorktrees demo_env demo_world repo_A) = None"
    by (simp add: syncWorktrees_def demo_defs db_defs)
  then have s: "syncWorktrees demo_env demo_world repo_A
                  = (None, snd (syncWorktrees demo_env demo_world repo_A))"
    by (simp add: prod_eq_iff)
  from f syncWorktrees_idempotent [OF s, of 200] show ?thesis by simp
qed

subsection \<open>Syncing all repositories\<close>

lemma UpsertWorktree_ok:
  "RepoID wt \<in> set (map r_id (repos_table c)) \<Longrightarrow> \<exists>c1 wt1. UpsertWorktree now c wt = Inr (c1, wt1) \<and> repos_table c1 = repos_table c"
  by (auto simp: UpsertWorktree_def Let_def split: option.splits)

lemma upsert_each_ok:
  "rid \<in> set (map r_id (repos_table c)) \<Longrightarrow> fst (upsert_each now c rid L acc) = None"
proof (induction L arbitrary: c acc)
  case Nil
  then show ?case by simp
next
  case (Cons g L)
  from UpsertWorktree_ok [of "listed rid g" c now] Cons.prems obtain c1 wt1 where
    u: "UpsertWorktree now c (listed rid g) = Inr (c1, wt1)" and r: "repos_table c1 = repos_table c"
    by auto
  from Cons.IH [of c1] r Cons.prems u show ?case by simp
qed

lemma syncWorktrees_cases:
  assumes "syncWorktrees env w repo = (e, w1)"
  shows "(\<exists>err. git_ListWorktrees env (ext w) (r_path repo) = Inl err \<and> e = Some err \<and> w1 = w)
       \<or> (\<exists>L err c1 ps. git_ListWorktrees env (ext w) (r_path repo) = Inr L
             \<and> upsert_each (clock w) (cat w) (r_id repo) L [] = (Some err, c1, ps)
             \<and> e = Some err \<and> w1 = w\<lparr>cat := c1\<rparr>)
       \<or> (\<exists>L c1 ps. git_ListWorktrees env (ext w) (r_path repo) = Inr L
             \<and> upsert_each (clock w) (cat w) (r_id repo) L [] = (None, c1, ps)
             \<and> SoftDeleteMissingWorktrees (clock w) c1 (r_id repo) ps = Inl TooManySQLVariables
             \<and> e = Some TooManySQLVariables \<and> w1 = w\<lparr>cat := c1\<rparr>)
       \<or> (\<exists>L c1 ps. git_ListWorktrees env (ext w) (r_path repo) = Inr L
             \<and> upsert_each (clock w) (cat w) (r_id repo) L [] = (None, c1, ps)
             \<and> SoftDeleteMissingWorktrees (clock w) c1 (r_id repo) ps
                 = Inr (missing_marked (clock w) c1 (r_id repo) ps)
             \<and> e = None \<and> w1 = w\<lparr>cat := missing_marked (clock w) c1 (r_id repo) ps\<rparr>)"
proof (cases "git_ListWorktrees env (ext w) (r_path repo)")
  case (Inl err)
  with assms show ?thesis by (simp add: syncWorktrees_def)
next
  case (Inr L)
  obtain e1 c1 ps where u: "upsert_each (clock w) (cat w) (r_id repo) L [] = (e1, c1, ps)"
    by (cases "upsert_each (clock w) (cat w) (r_id repo) L []") auto
  show ?thesis
  proof (cases e1)
    case (Some err)
    with assms Inr u show ?thesis by (auto simp: syncWorktrees_def)
  next
    case None
    show ?thesis
    proof (cases "ps \<noteq> [] \<and> length ps + 1 > SQLITE_MAX_VARIABLE_NUMBER")
      case True
      then have "SoftDeleteMissingWorktrees (clock w) c1 (r_id repo) ps = Inl TooManySQLVariables"
        by (simp add: SoftDeleteMissing_cases)
      with assms Inr u None show ?thesis by (simp add: syncWorktrees_def)
    next
      case False
      then have "SoftDeleteMissingWorktrees (clock w) c1 (r_id repo) ps
                   = Inr (missing_marked (clock w) c1 (r_id repo) ps)"
        by (simp add: SoftDeleteMissing_cases)
      with assms Inr u None show ?thesis by (simp add: syncWorktrees_def)
    qed
  qed
qed

lemma syncWorktrees_frame:
  assumes "syncWorktrees env w repo = (e, w1)"
  shows "ext w1 = ext w \<and> clock w1 = clock w \<and> out w1 = out w \<and> stdin w1 = stdin w
     \<and> repos_table (cat w1) = repos_table (cat w)"
  using syncWorktrees_cases [OF assms]
  by (elim disjE exE conjE) (simp_all add: upsert_each_repos)

lemma syncWorktrees_fst:
  assumes "r_id repo \<in> set (map r_id (repos_table (cat w)))"
  shows "fst (syncWorktrees env w repo) =
     (case git_ListWorktrees env (ext w) (r_path repo) of
        Inl err \<Rightarrow> Some err
      | Inr L \<Rightarrow> if L \<noteq> [] \<and> length L + 1 > SQLITE_MAX_VARIABLE_NUMBER
                 then Some TooManySQLVariables else None)"
proof (cases "git_ListWorktrees env (ext w) (r_path repo)")
  case (Inl err)
  then show ?thesis by (simp add: syncWorktrees_def)
next
  case (Inr L)
  from upsert_each_ok [OF assms, of "clock w" L "[]"] obtain c1 ps where
    u: "upsert_each (clock w) (cat w) (r_id repo) L [] = (None, c1, ps)"
    by (cases "upsert_each (clock w) (cat w) (r_id repo) L []") auto
  from upsert_each_live [OF u] have ps: "ps = map wi_Path L" by simp
  show ?thesis using Inr u
    by (simp add: syncWorktrees_def SoftDeleteMissing_cases ps)
qed

text \<open>
  A listing can succeed and the sync fail all the same: from 32766 listed worktrees on,
  the statement that marks the missing ones has too many variables.
\<close>

lemma syncWorktrees_too_many:
  assumes "git_ListWorktrees env (ext w) (r_path repo) = Inr L" "length L \<ge> 32766"
    and "r_id repo \<in> set (map r_id (repos_table (cat w)))"
  shows "fst (syncWorktrees env w repo) = Some TooManySQLVariables"
proof -
  from assms(2) have "L \<noteq> []" by auto
  with assms(1,2) show ?thesis
    by (simp add: syncWorktrees_fst [OF assms(3)] SQLITE_MAX_VARIABLE_NUMBER_def)
qed

lemma syncWorktrees_live:
  assumes "syncWorktrees env w repo = (None, w1)"
  shows "live_paths (r_id repo) (cat w1) = listed_paths env (ext w) repo"
proof -
  from syncWorktrees_cases [OF assms] obtain L c1 ps where
    l: "git_ListWorktrees env (ext w) (r_path repo) = Inr L"
    and u: "upsert_each (clock w) (cat w) (r_id repo) L [] = (None, c1, ps)"
    and w1: "w1 = w\<lparr>cat := missing_marked (clock w) c1 (r_id repo) ps\<rparr>"
    by auto
  from upsert_each_live [OF u] have
    lv: "live_paths (r_id repo) c1 = live_paths (r_id repo) (cat w) \<union> set (map wi_Path L)"
    and ps: "ps = map wi_Path L" by simp_all
  show ?thesis
    unfolding w1 by (simp add: SoftDeleteMissing_live lv ps Int_absorb1 listed_paths_def l)
qed

text \<open>A sync takes from another repository the rows whose paths it lists, and no other.\<close>

lemma upsert_row_live_other:
  "RepoID wt \<noteq> rid \<Longrightarrow> live_row rid (upsert_row wt r) \<longleftrightarrow> live_row rid r \<and> w_path r \<noteq> Path wt"
  by (auto simp: upsert_row_def live_row_def)

lemma UpsertWorktree_live_other:
  assumes "UpsertWorktree now c wt = Inr (c1, wt1)" "RepoID wt \<noteq> rid"
  shows "live_paths rid c1 = live_paths rid c - {Path wt}"
proof -
  from UpsertWorktree_rows [OF assms(1)] show ?thesis
  proof (elim disjE conjE exE)
    assume b: "worktrees_table c1 = map (upsert_row wt) (worktrees_table c)"
    have "live_paths rid c1 =
          set (map w_path (filter (\<lambda>r. live_row rid r \<and> w_path r \<noteq> Path wt) (worktrees_table c)))"
      unfolding live_paths_def b
      by (simp add: filter_map comp_def upsert_row_live_other [OF assms(2)])
    also have "\<dots> = live_paths rid c - {Path wt}"
      unfolding live_paths_def by auto
    finally show ?thesis .
  next
    fix row
    assume n: "Path wt \<notin> w_path ` set (worktrees_table c)"
      and r: "worktrees_table c1 = worktrees_table c @ [row]" "w_repo_id row = RepoID wt"
    from n have "\<forall>r \<in> set (worktrees_table c). w_path r \<noteq> Path wt" by (metis imageI)
    with r show ?thesis using assms(2) unfolding live_paths_def live_row_def by auto
  qed
qed

lemma upsert_each_live_other:
  "upsert_each now c rid' L acc = (None, c1, ps) \<Longrightarrow> rid' \<noteq> rid \<Longrightarrow>
     live_paths rid c1 = live_paths rid c - set (map wi_Path L)"
proof (induction L arbitrary: c acc)
  case Nil
  then show ?case by simp
next
  case (Cons g L)
  from Cons.prems(1) obtain c' wt' where
    u: "UpsertWorktree now c (listed rid' g) = Inr (c', wt')"
    and r: "upsert_each now c' rid' L (acc @ [wi_Path g]) = (None, c1, ps)"
    by (auto split: sum.splits)
  from UpsertWorktree_live_other [OF u, of rid] Cons.prems(2)
  have "live_paths rid c' = live_paths rid c - {wi_Path g}" by simp
  with Cons.IH [OF r Cons.prems(2)] show ?case by auto
qed

lemma missing_marked_rows_other:
  "rid' \<noteq> rid \<Longrightarrow>
   map w_path (filter (live_row rid)
      (map (\<lambda>r. if live_row rid' r \<and> w_path r \<notin> set ps
                then r\<lparr>w_deleted_at := Some now\<rparr> else r) rows))
   = map w_path (filter (live_row rid) rows)"
  by (induction rows) (simp_all add: live_row_def)

lemma missing_marked_live_other:
  "rid' \<noteq> rid \<Longrightarrow> live_paths rid (missing_marked now c rid' ps) = live_paths rid c"
  by (simp add: live_paths_def missing_marked_def missing_marked_rows_other)

lemma syncWorktrees_live_other:
  assumes "syncWorktrees env w x = (e, w1)" "r_id x \<noteq> rid"
    and "r_id x \<in> set (map r_id (repos_table (cat w)))"
  shows "live_paths rid (cat w1) = live_paths rid (cat w) - listed_paths env (ext w) x"
proof -
  from syncWorktrees_cases [OF assms(1)] show ?thesis
  proof (elim disjE exE conjE)
    fix err assume "git_ListWorktrees env (ext w) (r_path x) = Inl err" "w1 = w"
    then show ?thesis by (simp add: listed_paths_def)
  next
    fix L err c1 ps
    assume "upsert_each (clock w) (cat w) (r_id x) L [] = (Some err, c1, ps)"
    with upsert_each_ok [OF assms(3), of "clock w" L "[]"] show ?thesis by simp
  next
    fix L c1 ps
    assume l: "git_ListWorktrees env (ext w) (r_path x) = Inr L"
      and u: "upsert_each (clock w) (cat w) (r_id x) L [] = (None, c1, ps)"
      and w1: "w1 = w\<lparr>cat := c1\<rparr>"
    from upsert_each_live_other [OF u assms(2)] show ?thesis
      by (simp add: w1 listed_paths_def l)
  next
    fix L c1 ps
    assume l: "git_ListWorktrees env (ext w) (r_path x) = Inr L"
      and u: "upsert_each (clock w) (cat w) (r_id x) L [] = (None, c1, ps)"
      and w1: "w1 = w\<lparr>cat := missing_marked (clock w) c1 (r_id x) ps\<rparr>"
    from upsert_each_live_other [OF u assms(2)] show ?thesis
      by (simp add: w1 listed_paths_def l missing_marked_live_other [OF assms(2)])
  qed
qed

lemma synced_later_refl: "synced_later t rows rows"
  by (simp add: synced_later_def)

lemma synced_later_trans:
  "synced_later t a b \<Longrightarrow> synced_later t b c \<Longrightarrow> synced_later t a c"
  unfolding synced_later_def by (metis length_map)

lemma UpdateLastSynced_later:
  "synced_later t (repos_table c) (repos_table (UpdateLastSynced t c i))"
  by (auto simp: synced_later_def UpdateLastSynced_def comp_def intro!: map_cong [OF refl])

lemma sync_each_frame:
  "ext (sync_each env w rs) = ext w \<and> clock (sync_each env w rs) = clock w
    \<and> stdin (sync_each env w rs) = stdin w
    \<and> set (out w) \<subseteq> set (out (sync_each env w rs))
    \<and> synced_later (clock w) (repos_table (cat w)) (repos_table (cat (sync_each env w rs)))"
proof (induction rs arbitrary: w)
  case Nil
  then show ?case by (simp add: synced_later_refl)
next
  case (Cons repo rs)
  obtain e w1 where s: "syncWorktrees env w repo = (e, w1)" by (cases "syncWorktrees env w repo")
  note f = syncWorktrees_frame [OF s]
  show ?case
  proof (cases e)
    case (Some err)
    let ?w2 = "emit (WarningFailedToSync (r_name repo) err) w1"
    have "sync_each env w (repo # rs) = sync_each env ?w2 rs" using s Some by simp
    moreover have "ext ?w2 = ext w" "clock ?w2 = clock w" "set (out w) \<subseteq> set (out ?w2)"
      "repos_table (cat ?w2) = repos_table (cat w)" "stdin ?w2 = stdin w"
      using f by (auto simp: emit_def)
    ultimately show ?thesis using Cons.IH [of ?w2] by auto
  next
    case None
    let ?w2 = "w1\<lparr>cat := UpdateLastSynced (clock w1) (cat w1) (r_id repo)\<rparr>"
    have "sync_each env w (repo # rs) = sync_each env ?w2 rs" using s None by simp
    moreover have "ext ?w2 = ext w" "clock ?w2 = clock w" "set (out w) \<subseteq> set (out ?w2)"
      "stdin ?w2 = stdin w"
      using f by auto
    moreover have "synced_later (clock w) (repos_table (cat w)) (repos_table (cat ?w2))"
      using UpdateLastSynced_later [of "clock w" "cat w1" "r_id repo"] f by simp
    ultimately show ?thesis using Cons.IH [of ?w2] by (auto intro: synced_later_trans)
  qed
qed

lemma UpdateLastSynced_ids:
  "map r_id (repos_table (UpdateLastSynced t c i)) = map r_id (repos_table c)"
  by (auto simp: UpdateLastSynced_def comp_def intro!: map_cong [OF refl])

lemma in_set_mapE: "y \<in> set (map f xs) \<Longrightarrow> \<exists>x \<in> set xs. y = f x"
  by (induction xs) auto

lemma UpdateLastSynced_sets:
  assumes "r \<in> set (repos_table (UpdateLastSynced t c i))" "r_id r = i"
  shows "r_last_synced_at r = Some t"
proof -
  have "repos_table (UpdateLastSynced t c i)
          = map (\<lambda>r. if r_id r = i then r\<lparr>r_last_synced_at := Some t\<rparr> else r) (repos_table c)"
    by (simp add: UpdateLastSynced_def)
  with assms(1) have "r \<in> set (map (\<lambda>r. if r_id r = i then r\<lparr>r_last_synced_at := Some t\<rparr> else r)
                                  (repos_table c))"
    by (simp only:)
  from in_set_mapE [OF this] obtain r0 where
    r: "r = (if r_id r0 = i then r0\<lparr>r_last_synced_at := Some t\<rparr> else r0)"
    by blast
  show ?thesis
  proof (cases "r_id r0 = i")
    case True
    with r show ?thesis by simp
  next
    case False
    with r assms(2) show ?thesis by simp
  qed
qed

lemma synced_later_all:
  assumes "synced_later t rows rows'"
    and "\<forall>r \<in> set rows. r_id r = i \<longrightarrow> r_last_synced_at r = Some t"
    and "r' \<in> set rows'" "r_id r' = i"
  shows "r_last_synced_at r' = Some t"
proof -
  from assms(3) obtain k where k: "k < length rows'" "rows' ! k = r'"
    by (auto simp: in_set_conv_nth)
  from assms(1) have m: "map r_id rows' = map r_id rows" and
    s: "\<forall>i < length rows. r_last_synced_at (rows ! i) = Some t \<longrightarrow> r_last_synced_at (rows' ! i) = Some t"
    by (simp_all add: synced_later_def)
  from m have "length (map r_id rows') = length (map r_id rows)" by (rule arg_cong)
  then have len: "length rows' = length rows" by simp
  from m have "map r_id rows' ! k = map r_id rows ! k" by (rule arg_cong)
  with k len have "r_id (rows ! k) = r_id (rows' ! k)" by simp
  with k assms(4) have "r_id (rows ! k) = i" by simp
  moreover from k len have "rows ! k \<in> set rows" by simp
  ultimately have "r_last_synced_at (rows ! k) = Some t" using assms(2) by blast
  with s k len show ?thesis by auto
qed

text \<open>One turn of the loop of \<^verbatim>\<open>syncAllRepos\<close>, and the loop over a list cut in two.\<close>

lemma sync_each_append:
  "sync_each env w (xs @ ys) = sync_each env (sync_each env w xs) ys"
  by (induction xs arbitrary: w) (auto split: prod.splits option.splits)

lemma sync_each_live_other:
  assumes "rid \<notin> r_id ` set rs" "set (map r_id rs) \<subseteq> set (map r_id (repos_table (cat w)))"
  shows "live_paths rid (cat (sync_each env w rs))
           = live_paths rid (cat w) - \<Union> (listed_paths env (ext w) ` set rs)"
  using assms
proof (induction rs arbitrary: w)
  case Nil
  then show ?case by simp
next
  case (Cons x rs)
  obtain e w1 where s: "syncWorktrees env w x = (e, w1)" by (cases "syncWorktrees env w x")
  note f = syncWorktrees_frame [OF s]
  define w2 where "w2 = (case e of Some err \<Rightarrow> emit (WarningFailedToSync (r_name x) err) w1
                          | None \<Rightarrow> w1\<lparr>cat := UpdateLastSynced (clock w1) (cat w1) (r_id x)\<rparr>)"
  have step: "sync_each env w (x # rs) = sync_each env w2 rs"
    using s by (simp add: w2_def split: option.splits)
  have w2: "ext w2 = ext w"
    "map r_id (repos_table (cat w2)) = map r_id (repos_table (cat w))"
    using f by (auto simp: w2_def emit_def UpdateLastSynced_def comp_def split: option.splits
                     intro!: map_cong [OF refl])
  have wt: "worktrees_table (cat w2) = worktrees_table (cat w1)"
    by (simp add: w2_def emit_def UpdateLastSynced_def split: option.splits)
  from Cons.prems have x: "r_id x \<noteq> rid" "r_id x \<in> set (map r_id (repos_table (cat w)))"
    by auto
  from syncWorktrees_live_other [OF s x]
  have "live_paths rid (cat w2) = live_paths rid (cat w) - listed_paths env (ext w) x"
    by (simp add: live_paths_def wt)
  moreover from Cons.prems w2(2)
  have "rid \<notin> r_id ` set rs" "set (map r_id rs) \<subseteq> set (map r_id (repos_table (cat w2)))"
    by simp_all
  from Cons.IH [OF this]
  have "live_paths rid (cat (sync_each env w2 rs))
          = live_paths rid (cat w2) - \<Union> (listed_paths env (ext w) ` set rs)"
    by (simp add: w2(1))
  ultimately show ?case unfolding step by auto
qed

text \<open>The turns of the other repositories leave the rows of a repository in \<^verbatim>\<open>repos\<close>.\<close>

lemma UpdateLastSynced_other:
  "i \<noteq> rid \<Longrightarrow>
     filter (\<lambda>r. r_id r = rid) (repos_table (UpdateLastSynced t c i))
       = filter (\<lambda>r. r_id r = rid) (repos_table c)"
proof -
  have "filter (\<lambda>r. r_id r = rid)
          (map (\<lambda>r. if r_id r = i then r\<lparr>r_last_synced_at := Some t\<rparr> else r) rows)
        = filter (\<lambda>r. r_id r = rid) rows" if "i \<noteq> rid" for rows
    using that by (induction rows) auto
  then show "i \<noteq> rid \<Longrightarrow> ?thesis" by (simp add: UpdateLastSynced_def)
qed

lemma sync_each_repo_rows:
  "rid \<notin> r_id ` set rs \<Longrightarrow>
     filter (\<lambda>r. r_id r = rid) (repos_table (cat (sync_each env w rs)))
       = filter (\<lambda>r. r_id r = rid) (repos_table (cat w))"
proof (induction rs arbitrary: w)
  case Nil
  then show ?case by simp
next
  case (Cons x rs)
  obtain e w1 where s: "syncWorktrees env w x = (e, w1)" by (cases "syncWorktrees env w x")
  note f = syncWorktrees_frame [OF s]
  define w2 where "w2 = (case e of Some err \<Rightarrow> emit (WarningFailedToSync (r_name x) err) w1
                          | None \<Rightarrow> w1\<lparr>cat := UpdateLastSynced (clock w1) (cat w1) (r_id x)\<rparr>)"
  have step: "sync_each env w (x # rs) = sync_each env w2 rs"
    using s by (simp add: w2_def split: option.splits)
  from Cons.prems have x: "r_id x \<noteq> rid" and rs: "rid \<notin> r_id ` set rs" by auto
  have "filter (\<lambda>r. r_id r = rid) (repos_table (cat w2))
          = filter (\<lambda>r. r_id r = rid) (repos_table (cat w))"
    using f UpdateLastSynced_other [OF x] by (simp add: w2_def emit_def split: option.splits)
  with Cons.IH [OF rs, of w2] show ?case unfolding step by simp
qed

lemma ListRepos_subset: "set (ListRepos c) \<subseteq> set (repos_table c)"
  by (auto simp: ListRepos_def)

text \<open>
  C7 (partial failure). \<^verbatim>\<open>syncAllRepos\<close> returns no error. Let \<open>repo\<close> be any of the
  non-deleted repositories, \<open>pre\<close> those that come before it and \<open>post\<close> those that come
  after it. When the turn of \<open>repo\<close> comes, \<^verbatim>\<open>syncWorktrees\<close> answers for it what it would
  have answered at the start, whatever happened to the repositories before it. If that
  answer is an error, the warning with the name of the repository and that error is on
  standard error at the end, and the row of the repository in \<^verbatim>\<open>repos\<close> is as it was,
  its last-synced timestamp too. If the sync succeeds, the last-synced timestamp of the
  repository is the time of the run, and the sync has been carried out: at the end the
  repository owns, among the non-deleted rows, exactly the paths of its listing that no
  repository after it has listed too. (The id is the primary key of \<^verbatim>\<open>repos\<close>, so no
  other repository of the list has the id of \<open>repo\<close>.)
\<close>

theorem syncAllRepos_tolerates_failures:
  assumes "ListRepos (cat w) = pre @ repo # post"
  shows "fst (syncAllRepos env w) = None
       \<and> fst (syncWorktrees env (sync_each env w pre) repo) = fst (syncWorktrees env w repo)
       \<and> (\<forall>err. fst (syncWorktrees env w repo) = Some err \<longrightarrow>
             WarningFailedToSync (r_name repo) err \<in> set (out (snd (syncAllRepos env w)))
           \<and> (r_id repo \<notin> r_id ` set (pre @ post) \<longrightarrow>
                filter (\<lambda>r. r_id r = r_id repo) (repos_table (cat (snd (syncAllRepos env w))))
                  = filter (\<lambda>r. r_id r = r_id repo) (repos_table (cat w))))
       \<and> (fst (syncWorktrees env w repo) = None \<longrightarrow>
             (\<forall>r \<in> set (repos_table (cat (snd (syncAllRepos env w)))).
                 r_id r = r_id repo \<longrightarrow> r_last_synced_at r = Some (clock w))
           \<and> (r_id repo \<notin> r_id ` set post \<longrightarrow>
                live_paths (r_id repo) (cat (snd (syncAllRepos env w)))
                  = listed_paths env (ext w) repo - \<Union> (listed_paths env (ext w) ` set post)))"
proof -
  have ids: "set (map r_id (ListRepos (cat w))) \<subseteq> set (map r_id (repos_table (cat w)))"
    using ListRepos_subset [of "cat w"] by auto
  define w0 where "w0 = sync_each env w pre"
  from sync_each_frame [of env w pre]
  have w0: "ext w0 = ext w" "clock w0 = clock w"
    "map r_id (repos_table (cat w0)) = map r_id (repos_table (cat w))"
    by (simp_all add: w0_def synced_later_def)
  from ids assms have rid: "r_id repo \<in> set (map r_id (repos_table (cat w)))" by simp
  then have rid0: "r_id repo \<in> set (map r_id (repos_table (cat w0)))" by (simp only: w0(3))
  have same: "fst (syncWorktrees env w0 repo) = fst (syncWorktrees env w repo)"
    by (simp add: syncWorktrees_fst [OF rid] syncWorktrees_fst [OF rid0] w0(1))
  obtain e w1 where s: "syncWorktrees env w0 repo = (e, w1)" by (cases "syncWorktrees env w0 repo")
  note f = syncWorktrees_frame [OF s]
  define w2 where "w2 = (case e of Some err \<Rightarrow> emit (WarningFailedToSync (r_name repo) err) w1
                          | None \<Rightarrow> w1\<lparr>cat := UpdateLastSynced (clock w1) (cat w1) (r_id repo)\<rparr>)"
  have "sync_each env w0 (repo # post) = sync_each env w2 post"
    using s by (simp add: w2_def split: option.splits)
  then have fin: "snd (syncAllRepos env w) = sync_each env w2 post"
    by (simp add: syncAllRepos_def assms sync_each_append w0_def)
  have w2: "ext w2 = ext w" "clock w2 = clock w"
    "map r_id (repos_table (cat w2)) = map r_id (repos_table (cat w))"
    using f w0 by (simp_all add: w2_def emit_def UpdateLastSynced_ids split: option.splits)
  have wt: "worktrees_table (cat w2) = worktrees_table (cat w1)"
    by (simp add: w2_def emit_def UpdateLastSynced_def split: option.splits)
  note fr = sync_each_frame [of env w2 post]
  from s same have e: "fst (syncWorktrees env w repo) = e" by simp
  have a: "WarningFailedToSync (r_name repo) err \<in> set (out (snd (syncAllRepos env w)))"
    if "e = Some err" for err
  proof -
    from that have "WarningFailedToSync (r_name repo) err \<in> set (out w2)"
      by (simp add: w2_def emit_def)
    with fr show ?thesis unfolding fin by blast
  qed
  have a': "filter (\<lambda>r. r_id r = r_id repo) (repos_table (cat (snd (syncAllRepos env w))))
              = filter (\<lambda>r. r_id r = r_id repo) (repos_table (cat w))"
    if "e = Some err" "r_id repo \<notin> r_id ` set (pre @ post)" for err
  proof -
    from that(2) have p: "r_id repo \<notin> r_id ` set pre" "r_id repo \<notin> r_id ` set post" by auto
    from that(1) f have "repos_table (cat w2) = repos_table (cat w0)"
      by (simp add: w2_def emit_def)
    with sync_each_repo_rows [OF p(2), of env w2] sync_each_repo_rows [OF p(1), of env w]
    show ?thesis unfolding fin by (simp add: w0_def)
  qed
  have b: "r_last_synced_at r = Some (clock w)"
    if "e = None" "r \<in> set (repos_table (cat (snd (syncAllRepos env w))))" "r_id r = r_id repo" for r
  proof -
    from that(1) have "\<forall>r \<in> set (repos_table (cat w2)). r_id r = r_id repo \<longrightarrow> r_last_synced_at r = Some (clock w2)"
      using f by (auto simp: w2_def dest: UpdateLastSynced_sets)
    from synced_later_all [OF _ this] fr that(2,3) show ?thesis
      unfolding fin w2(2) by blast
  qed
  have c: "live_paths (r_id repo) (cat (snd (syncAllRepos env w)))
             = listed_paths env (ext w) repo - \<Union> (listed_paths env (ext w) ` set post)"
    if "e = None" "r_id repo \<notin> r_id ` set post"
  proof -
    from s that(1) have "syncWorktrees env w0 repo = (None, w1)" by simp
    from syncWorktrees_live [OF this]
    have "live_paths (r_id repo) (cat w2) = listed_paths env (ext w) repo"
      by (simp add: live_paths_def wt w0(1))
    moreover from ids assms w2(3)
    have "set (map r_id post) \<subseteq> set (map r_id (repos_table (cat w2)))" by simp
    from sync_each_live_other [OF that(2) this]
    have "live_paths (r_id repo) (cat (sync_each env w2 post))
            = live_paths (r_id repo) (cat w2) - \<Union> (listed_paths env (ext w) ` set post)"
      by (simp add: w2(1))
    ultimately show ?thesis unfolding fin by simp
  qed
  have n: "fst (syncAllRepos env w) = None" by (simp add: syncAllRepos_def)
  from same have same': "fst (syncWorktrees env (sync_each env w pre) repo) = fst (syncWorktrees env w repo)"
    by (simp add: w0_def)
  from n same' a a' b c show ?thesis unfolding e by blast
qed

theorem syncAllRepos_tolerates_failures_witness:
  "ListRepos (cat demo_world) = [] @ repo_A # [repo_B]
   \<and> ListRepos (cat demo_world) = [repo_A] @ repo_B # []
   \<and> fst (syncWorktrees demo_env demo_world repo_A) = None
   \<and> fst (syncWorktrees demo_env demo_world repo_B) = Some (ExternalError ''exit status 128'')
   \<and> fst (syncAllRepos demo_env demo_world) = None
   \<and> WarningFailedToSync ''B'' (ExternalError ''exit status 128'')
       \<in> set (out (snd (syncAllRepos demo_env demo_world)))
   \<and> filter (\<lambda>r. r_id r = 2) (repos_table (cat (snd (syncAllRepos demo_env demo_world))))
       = [repo_B]
   \<and> r_last_synced_at (hd (repos_table (cat (snd (syncAllRepos demo_env demo_world)))))
       = Some 100
   \<and> live_paths 1 (cat (snd (syncAllRepos demo_env demo_world)))
       = {''/A'', ''/A.worktrees/feature-x'', ''/A.worktrees/feature-y'',
          ''/A.worktrees/feature-z''}"
proof -
  have lr: "ListRepos (cat demo_world) = [] @ repo_A # [repo_B]"
    by (simp add: ListRepos_def demo_defs)
  then have lr2: "ListRepos (cat demo_world) = [repo_A] @ repo_B # []" by simp
  have sa: "fst (syncWorktrees demo_env demo_world repo_A) = None"
    by (simp add: syncWorktrees_def demo_defs db_defs)
  have sb: "fst (syncWorktrees demo_env demo_world repo_B)
              = Some (ExternalError ''exit status 128'')"
    by (simp add: syncWorktrees_def demo_defs)
  have h: "hd (repos_table (cat (snd (syncAllRepos demo_env demo_world))))
             \<in> set (repos_table (cat (snd (syncAllRepos demo_env demo_world))))"
    and i: "r_id (hd (repos_table (cat (snd (syncAllRepos demo_env demo_world))))) = r_id repo_A"
    by (simp_all add: syncAllRepos_def ListRepos_def syncWorktrees_def demo_defs db_defs emit_def)
  have d: "r_id repo_A \<notin> r_id ` set [repo_B]" by (simp add: repo_A_def repo_B_def)
  have pa: "listed_paths demo_env (ext demo_world) repo_A
              = {''/A'', ''/A.worktrees/feature-x'', ''/A.worktrees/feature-y'',
                 ''/A.worktrees/feature-z''}"
    and pb: "listed_paths demo_env (ext demo_world) repo_B = {}"
    by (simp_all add: listed_paths_def demo_defs)
  note ta = syncAllRepos_tolerates_failures [OF lr, of demo_env]
  note tb = syncAllRepos_tolerates_failures [OF lr2, of demo_env]
  from ta have n: "fst (syncAllRepos demo_env demo_world) = None" by blast
  from tb sb have w: "WarningFailedToSync (r_name repo_B) (ExternalError ''exit status 128'')
       \<in> set (out (snd (syncAllRepos demo_env demo_world)))"
    by blast
  have db: "r_id repo_B \<notin> r_id ` set ([repo_A] @ [])" by (simp add: repo_A_def repo_B_def)
  from tb sb db
  have "filter (\<lambda>r. r_id r = r_id repo_B)
          (repos_table (cat (snd (syncAllRepos demo_env demo_world))))
        = filter (\<lambda>r. r_id r = r_id repo_B) (repos_table (cat demo_world))"
    by blast
  then have k: "filter (\<lambda>r. r_id r = 2)
          (repos_table (cat (snd (syncAllRepos demo_env demo_world)))) = [repo_B]"
    by (simp add: demo_world_def demo_catalog_def) (simp add: repo_A_def repo_B_def)
  from ta sa h i
  have t: "r_last_synced_at (hd (repos_table (cat (snd (syncAllRepos demo_env demo_world)))))
          = Some (clock demo_world)"
    by blast
  from ta sa d
  have "live_paths (r_id repo_A) (cat (snd (syncAllRepos demo_env demo_world)))
          = listed_paths demo_env (ext demo_world) repo_A
              - \<Union> (listed_paths demo_env (ext demo_world) ` set [repo_B])"
    by blast
  then have l: "live_paths 1 (cat (snd (syncAllRepos demo_env demo_world)))
       = {''/A'', ''/A.worktrees/feature-x'', ''/A.worktrees/feature-y'',
          ''/A.worktrees/feature-z''}"
    by (simp add: pa pb) (simp add: repo_A_def)
  from lr lr2 sa sb n w k t l show ?thesis by (simp add: repo_B_def demo_world_def)
qed

subsection \<open>Tombstones\<close>

lemma upsert_row_id [simp]: "w_id (upsert_row wt r) = w_id r"
  by (simp add: upsert_row_def)

lemma upsert_row_deleted:
  "w_deleted_at (upsert_row wt r) = (if w_path r = Path wt then None else w_deleted_at r)"
  by (simp add: upsert_row_def)

lemma UpsertRepo_worktrees [simp]: "worktrees_table (fst (UpsertRepo now c repo)) = worktrees_table c"
  by (simp add: UpsertRepo_def Let_def split: option.splits)

lemma UpsertWorktree_nth:
  assumes "UpsertWorktree now c wt = Inr (c1, wt1)" "i < length (worktrees_table c)"
  shows "i < length (worktrees_table c1) \<and> worktrees_table c1 ! i = upsert_row wt (worktrees_table c ! i)"
proof (cases "find (\<lambda>r. w_path r = Path wt) (worktrees_table c)")
  case None
  then have "\<forall>r \<in> set (worktrees_table c). w_path r \<noteq> Path wt" by (auto simp: find_None_iff)
  with assms(2) have "upsert_row wt (worktrees_table c ! i) = worktrees_table c ! i"
    by (simp add: upsert_row_def)
  with None assms show ?thesis
    by (auto simp: UpsertWorktree_def Let_def nth_append split: if_splits)
next
  case (Some hit)
  with assms show ?thesis
    by (auto simp: UpsertWorktree_def Let_def split: if_splits)
qed

text \<open>
  C8 (tombstone exclusivity). A statement of the catalog keeps every row of \<^verbatim>\<open>worktrees\<close>
  in its place with its id and path, and a row that carries a tombstone loses it exactly
  when the statement is an upsert of a worktree with that row's path; soft deletes,
  the deletion of missing worktrees, the statements on \<^verbatim>\<open>repos\<close> and the reads leave the
  tombstone.
\<close>

theorem tombstone_exclusive:
  assumes "exec now c st = Inr c1" "i < length (worktrees_table c)"
    and "w_deleted_at (worktrees_table c ! i) \<noteq> None"
  shows "i < length (worktrees_table c1)
       \<and> w_id (worktrees_table c1 ! i) = w_id (worktrees_table c ! i)
       \<and> w_path (worktrees_table c1 ! i) = w_path (worktrees_table c ! i)
       \<and> (w_deleted_at (worktrees_table c1 ! i) = None
            \<longleftrightarrow> (\<exists>wt. st = StUpsertWorktree wt \<and> Path wt = w_path (worktrees_table c ! i)))"
proof (cases st)
  case (StUpsertWorktree wt)
  with assms(1) obtain wt1 where "UpsertWorktree now c wt = Inr (c1, wt1)"
    by (auto split: sum.splits)
  from UpsertWorktree_nth [OF this assms(2)] assms(3) StUpsertWorktree show ?thesis
    by (auto simp: upsert_row_deleted)
next
  case (StSoftDeleteWorktree x)
  with assms show ?thesis by (auto simp: SoftDeleteWorktree_def)
next
  case (StSoftDeleteWorktreeByPath p)
  with assms show ?thesis by (auto simp: SoftDeleteWorktreeByPath_def)
next
  case (StSoftDeleteMissingWorktrees rid ps)
  with assms show ?thesis by (auto simp: SoftDeleteMissingWorktrees_def split: if_splits)
next
  case (StUpsertRepo repo)
  with assms show ?thesis by auto
next
  case (StSoftDeleteRepo x)
  with assms show ?thesis by (auto simp: SoftDeleteRepo_def)
next
  case (StUpdateLastSynced x)
  with assms show ?thesis by (auto simp: UpdateLastSynced_def)
next
  case StSelect
  with assms show ?thesis by auto
qed

theorem tombstone_exclusive_witness:
  "w_deleted_at (worktrees_table demo_catalog ! 2) = Some 5
   \<and> (\<exists>c1. exec 100 demo_catalog
             (StUpsertWorktree
                (listed 1 \<lparr>wi_Path = ''/A.worktrees/old'', wi_Branch = ''old'',
                           wi_IsMain = False\<rparr>)) = Inr c1
          \<and> w_deleted_at (worktrees_table c1 ! 2) = None)
   \<and> (\<exists>c2. exec 100 demo_catalog (StSoftDeleteMissingWorktrees 1 []) = Inr c2
          \<and> w_deleted_at (worktrees_table c2 ! 2) \<noteq> None)"
proof -
  have d: "w_deleted_at (worktrees_table demo_catalog ! 2) \<noteq> None"
    and d5: "w_deleted_at (worktrees_table demo_catalog ! 2) = Some 5"
    and n: "(2::nat) < length (worktrees_table demo_catalog)"
    and p: "w_path (worktrees_table demo_catalog ! 2) = ''/A.worktrees/old''"
    by (simp_all add: demo_catalog_def)
  let ?wt = "listed 1 \<lparr>wi_Path = ''/A.worktrees/old'', wi_Branch = ''old'', wi_IsMain = False\<rparr>"
  obtain c1 where e: "exec 100 demo_catalog (StUpsertWorktree ?wt) = Inr c1"
    by (simp add: demo_defs db_defs)
  from tombstone_exclusive [OF e n d] p
  have "w_deleted_at (worktrees_table c1 ! 2) = None" by simp
  with e have a: "\<exists>c1. exec 100 demo_catalog (StUpsertWorktree ?wt) = Inr c1
                    \<and> w_deleted_at (worktrees_table c1 ! 2) = None"
    by blast
  obtain c2 where e2: "exec 100 demo_catalog (StSoftDeleteMissingWorktrees 1 []) = Inr c2"
    by (simp add: SoftDeleteMissingWorktrees_def)
  from tombstone_exclusive [OF e2 n d]
  have "w_deleted_at (worktrees_table c2 ! 2) \<noteq> None"
    by simp
  with e2 have b: "\<exists>c2. exec 100 demo_catalog (StSoftDeleteMissingWorktrees 1 []) = Inr c2
                    \<and> w_deleted_at (worktrees_table c2 ! 2) \<noteq> None"
    by blast
  from d5 a b show ?thesis by blast
qed

subsection \<open>The selector on an empty list\<close>

text \<open>
  C10 (empty list). With no worktree to show, \<^verbatim>\<open>PickWorktree\<close> answers the action Add
  with no worktree at once: the event loop is not started and no message is read.
\<close>

theorem PickWorktree_empty:
  "PickWorktree lib [] msgs = (Inr \<lparr>Action = ActionAdd, Worktree = None\<rparr>, msgs)"
  by (simp add: PickWorktree_def)

subsection \<open>Protection of the main worktree\<close>

lemma ensureCurrentRepoInDB_frame:
  "ensureCurrentRepoInDB env w cwd = (e, w1) \<Longrightarrow> ext w1 = ext w \<and> stdin w1 = stdin w"
  by (auto simp: ensureCurrentRepoInDB_def split: sum.splits option.splits)

lemma sync_phase_frame:
  assumes "sync_phase env w cwd = (e, w2)"
  shows "ext w2 = ext w \<and> stdin w2 = stdin w"
proof -
  obtain e1 w1 where
    p: "(if git_IsInsideRepo env (ext w) cwd then ensureCurrentRepoInDB env w cwd
         else (None, w)) = (e1, w1)"
    by (cases "if git_IsInsideRepo env (ext w) cwd then ensureCurrentRepoInDB env w cwd
               else (None, w)")
  have f1: "ext w1 = ext w \<and> stdin w1 = stdin w"
  proof (cases "git_IsInsideRepo env (ext w) cwd")
    case True
    with p have "ensureCurrentRepoInDB env w cwd = (e1, w1)" by simp
    then show ?thesis by (rule ensureCurrentRepoInDB_frame)
  next
    case False
    with p show ?thesis by simp
  qed
  show ?thesis
  proof (cases e1)
    case (Some err)
    with assms p f1 show ?thesis by (simp add: sync_phase_def)
  next
    case None
    with assms p have "w2 = sync_each env w1 (ListRepos (cat w1))"
      by (simp add: sync_phase_def syncAllRepos_def)
    with sync_each_frame [of env w1 "ListRepos (cat w1)"] f1 show ?thesis by simp
  qed
qed

lemma runRemove_by_path:
  assumes "db_open_error w = None" "os_Getwd env (ext w) = Inr cwd"
    and "sync_phase env w cwd = (None, w2)"
  shows "runRemove env lib removeForce [p] w msgs =
     (case GetWorktreeByPath (cat w2) p of
        None \<Rightarrow> ((Some (WorktreeNotFound p), w2), msgs)
      | Some worktree \<Rightarrow> (runRemove_worktree env removeForce w2 worktree, msgs))"
proof -
  obtain e1 w1 where
    p: "(if git_IsInsideRepo env (ext w) cwd then ensureCurrentRepoInDB env w cwd
         else (None, w)) = (e1, w1)"
    by (cases "if git_IsInsideRepo env (ext w) cwd then ensureCurrentRepoInDB env w cwd
               else (None, w)")
  from assms(3) p have e1: "e1 = None" and s: "syncAllRepos env w1 = (None, w2)"
    by (auto simp: sync_phase_def split: option.splits)
  from assms(1,2) p e1 s show ?thesis
    by (simp add: runRemove_def split: option.splits)
qed

text \<open>
  Without a path, \<^verbatim>\<open>wt remove\<close> offers only the worktrees that are not main, and the
  selector answers with one of those it was given: a main worktree reaches the second half
  of \<^verbatim>\<open>runRemove\<close> only by its path.
\<close>

lemma Update_worktrees:
  "Update lib m msg = Inr (m1, c) \<Longrightarrow> worktrees m1 = worktrees m"
  by (induction lib m msg rule: Update.induct)
     (auto simp: quit_with_def update_input_def updateFilter_def Let_def
           split: if_splits sum.splits)

lemma run_program_worktrees:
  "run_program lib m msgs = (Inr r, rest) \<Longrightarrow> worktrees r = worktrees m"
proof (induction msgs arbitrary: m)
  case Nil
  then show ?case by simp
next
  case (Cons msg msgs)
  from Cons.prems obtain m1 c where u: "Update lib m msg = Inr (m1, c)"
    by (auto split: sum.splits)
  show ?case
  proof (cases "c = CmdQuit")
    case True
    with Cons.prems u Update_worktrees [OF u] show ?thesis by simp
  next
    case False
    with Cons.prems u have "run_program lib m1 msgs = (Inr r, rest)" by simp
    from Cons.IH [OF this] Update_worktrees [OF u] show ?thesis by simp
  qed
qed

lemma PickWorktreeSimple_member:
  assumes "PickWorktreeSimple lib wts msgs = (Inr (Some wt), rest)"
  shows "wt \<in> set wts"
proof -
  from assms obtain r idx where
    p: "run_program lib (newPickerModel lib wts) msgs = (Inr r, rest)"
    and i: "index_at (worktrees r) (int idx) = Inr wt"
    by (auto simp: PickWorktreeSimple_def split: if_splits prod.splits sum.splits)
  from run_program_worktrees [OF p] have "worktrees r = wts" by (simp add: newPickerModel_def)
  with i show ?thesis by (auto simp: index_at_def split: if_splits)
qed

lemma PickWorktreeSimple_never_main:
  "PickWorktreeSimple lib (filter (\<lambda>wt. \<not> IsMain wt) wts) msgs = (Inr (Some wt), rest)
     \<Longrightarrow> \<not> IsMain wt"
  using PickWorktreeSimple_member [of lib "filter (\<lambda>wt. \<not> IsMain wt) wts" msgs wt rest]
  by simp

text \<open>
  C5 (main protection), as amended. For a main worktree, \<^verbatim>\<open>deleteWorktree\<close> fails with
  the rejection and leaves the whole state as it was (no prompt, no byte read, no git
  command, no change of the catalog), and the Delete key on it in the selector changes
  nothing and does not end the loop. \<^verbatim>\<open>wt remove\<close> with the path of a main worktree runs
  its sync phase first, which may write to the catalog; once the worktree is looked up it
  fails with the rejection at once: the state it returns is the one the sync phase left,
  with the outside state and the input as they were at the start.
\<close>

theorem main_worktree_protected:
  assumes "IsMain wt"
  shows "deleteWorktree env w wt = (Some CannotDeleteMainWorktree, w)
       \<and> (\<forall>lib m idx. filtered m \<noteq> [] \<and> index_at (filtered m) (cursor m) = Inr idx
              \<and> index_at (worktrees m) (int idx) = Inr wt
            \<longrightarrow> Update lib m (KeyMsg KeyCtrlD) = Inr (m, CmdNil))
       \<and> runRemove_worktree env removeForce w wt = (Some CannotRemoveMainWorktree, w)
       \<and> (\<forall>lib p msgs cwd w2.
              db_open_error w = None \<and> os_Getwd env (ext w) = Inr cwd
              \<and> sync_phase env w cwd = (None, w2) \<and> GetWorktreeByPath (cat w2) p = Some wt
            \<longrightarrow> runRemove env lib removeForce [p] w msgs
                  = ((Some CannotRemoveMainWorktree, w2), msgs)
                \<and> ext w2 = ext w \<and> stdin w2 = stdin w)"
proof -
  have a: "deleteWorktree env w wt = (Some CannotDeleteMainWorktree, w)"
    using assms by (simp add: deleteWorktree_def)
  have b: "Update lib m (KeyMsg KeyCtrlD) = Inr (m, CmdNil)"
    if "filtered m \<noteq> []" "index_at (filtered m) (cursor m) = Inr idx"
      "index_at (worktrees m) (int idx) = Inr wt" for lib :: "'b uilib" and m idx
    using that assms by simp
  have c: "runRemove_worktree env removeForce v wt = (Some CannotRemoveMainWorktree, v)" for v
    using assms by (simp add: runRemove_worktree_def)
  have d: "runRemove env lib removeForce [p] w msgs = ((Some CannotRemoveMainWorktree, w2), msgs)
           \<and> ext w2 = ext w \<and> stdin w2 = stdin w"
    if "db_open_error w = None" "os_Getwd env (ext w) = Inr cwd"
      "sync_phase env w cwd = (None, w2)" "GetWorktreeByPath (cat w2) p = Some wt"
    for lib :: "'c uilib" and p msgs cwd w2
    using runRemove_by_path [OF that(1,2,3), of lib removeForce p msgs] that(4) c [of w2]
      sync_phase_frame [OF that(3)]
    by simp
  from a b c d show ?thesis by blast
qed

theorem main_worktree_protected_witness:
  "IsMain main_A
   \<and> deleteWorktree demo_env demo_world main_A = (Some CannotDeleteMainWorktree, demo_world)
   \<and> Update demo_lib (newPickerModel demo_lib [main_A, feature_x]) (KeyMsg KeyCtrlD)
       = Inr (newPickerModel demo_lib [main_A, feature_x], CmdNil)
   \<and> db_open_error demo_world = None \<and> os_Getwd demo_env (ext demo_world) = Inr ''/A''
   \<and> fst (sync_phase demo_env demo_world ''/A'') = None
   \<and> GetWorktreeByPath (cat (snd (sync_phase demo_env demo_world ''/A''))) ''/A'' = Some main_A
   \<and> runRemove demo_env demo_lib True [''/A''] demo_world []
       = ((Some CannotRemoveMainWorktree, snd (sync_phase demo_env demo_world ''/A'')), [])
   \<and> ext (snd (sync_phase demo_env demo_world ''/A'')) = ext demo_world"
proof -
  have m: "IsMain main_A" by (simp add: main_A_def)
  have f: "filtered (newPickerModel demo_lib [main_A, feature_x]) \<noteq> []"
    and i: "index_at (filtered (newPickerModel demo_lib [main_A, feature_x]))
              (cursor (newPickerModel demo_lib [main_A, feature_x])) = Inr 0"
    and j: "index_at (worktrees (newPickerModel demo_lib [main_A, feature_x])) (int 0)
              = Inr main_A"
    by (simp_all add: newPickerModel_def index_at_def)
  have o: "db_open_error demo_world = None" "os_Getwd demo_env (ext demo_world) = Inr ''/A''"
    by (simp_all add: demo_defs)
  have sf: "fst (sync_phase demo_env demo_world ''/A'') = None"
    by (simp add: sync_phase_def ensureCurrentRepoInDB_def GetRepoByPath_def syncAllRepos_def
          demo_defs)
  then have sp: "sync_phase demo_env demo_world ''/A''
                   = (None, snd (sync_phase demo_env demo_world ''/A''))"
    by (simp add: prod_eq_iff)
  have g: "GetWorktreeByPath (cat (snd (sync_phase demo_env demo_world ''/A''))) ''/A''
             = Some main_A"
    by (simp add: sync_phase_def ensureCurrentRepoInDB_def GetRepoByPath_def syncAllRepos_def
          ListRepos_def syncWorktrees_def GetWorktreeByPath_def joined_def emit_def
          demo_defs db_defs)
  note t = main_worktree_protected [OF m, of demo_env demo_world True]
  from t have a: "deleteWorktree demo_env demo_world main_A
                    = (Some CannotDeleteMainWorktree, demo_world)"
    by blast
  from t f i j have b: "Update demo_lib (newPickerModel demo_lib [main_A, feature_x])
                          (KeyMsg KeyCtrlD)
                        = Inr (newPickerModel demo_lib [main_A, feature_x], CmdNil)"
    by blast
  from t o sp g have c: "runRemove demo_env demo_lib True [''/A''] demo_world []
       = ((Some CannotRemoveMainWorktree, snd (sync_phase demo_env demo_world ''/A'')), [])
     \<and> ext (snd (sync_phase demo_env demo_world ''/A'')) = ext demo_world"
    by blast
  from m a b o sf g c show ?thesis by blast
qed

text \<open>
  The claim as it was stated fails for \<^verbatim>\<open>wt remove /A\<close>: the command is rejected because
  \<^verbatim>\<open>/A\<close> is a main worktree, but its sync phase has already written to the catalog: the
  row of \<^verbatim>\<open>stale\<close> carries a tombstone, \<^verbatim>\<open>feature-y\<close> has a row, and the repository is
  stamped as synced.
\<close>

theorem main_worktree_protected_counterexample:
  "fst (fst (runRemove demo_env demo_lib False [''/A''] demo_world []))
     = Some CannotRemoveMainWorktree
   \<and> map w_deleted_at (worktrees_table (cat demo_world)) = [None, None, Some 5, None, None]
   \<and> map w_deleted_at
       (worktrees_table (cat (snd (fst (runRemove demo_env demo_lib False [''/A''] demo_world [])))))
       = [None, None, Some 5, Some 100, None, None]
   \<and> map r_last_synced_at (repos_table (cat demo_world)) = [None, None]
   \<and> map r_last_synced_at
       (repos_table (cat (snd (fst (runRemove demo_env demo_lib False [''/A''] demo_world [])))))
       = [Some 100, None]
   \<and> cat (snd (fst (runRemove demo_env demo_lib False [''/A''] demo_world []))) \<noteq> cat demo_world"
proof -
  have r: "runRemove demo_env demo_lib False [''/A''] demo_world []
             = (runRemove_worktree demo_env False (snd (syncAllRepos demo_env demo_world))
                  (the (GetWorktreeByPath (cat (snd (syncAllRepos demo_env demo_world))) ''/A'')), [])"
    by (simp add: runRemove_def ensureCurrentRepoInDB_def GetRepoByPath_def syncAllRepos_def
          ListRepos_def syncWorktrees_def GetWorktreeByPath_def joined_def emit_def
          demo_defs db_defs)
  have g: "the (GetWorktreeByPath (cat (snd (syncAllRepos demo_env demo_world))) ''/A'') = main_A"
    by (simp add: syncAllRepos_def ListRepos_def syncWorktrees_def GetWorktreeByPath_def
          joined_def emit_def demo_defs db_defs)
  have e: "runRemove demo_env demo_lib False [''/A''] demo_world []
             = ((Some CannotRemoveMainWorktree, snd (syncAllRepos demo_env demo_world)), [])"
    unfolding r g by (simp add: runRemove_worktree_def main_A_def)
  have d: "map w_deleted_at (worktrees_table (cat (snd (syncAllRepos demo_env demo_world))))
             = [None, None, Some 5, Some 100, None, None]"
    and l: "map r_last_synced_at (repos_table (cat (snd (syncAllRepos demo_env demo_world))))
             = [Some 100, None]"
    by (simp_all add: syncAllRepos_def ListRepos_def syncWorktrees_def emit_def demo_defs db_defs)
  have d0: "map w_deleted_at (worktrees_table (cat demo_world)) = [None, None, Some 5, None, None]"
    and l0: "map r_last_synced_at (repos_table (cat demo_world)) = [None, None]"
    by (simp_all add: demo_defs)
  from l l0 have "cat (snd (syncAllRepos demo_env demo_world)) \<noteq> cat demo_world" by auto
  with e d l d0 l0 show ?thesis by simp
qed

subsection \<open>The cursor\<close>

lemma newPickerModel_cursor: "cursor_in_range (newPickerModel lib wts)"
  by (simp add: cursor_in_range_def newPickerModel_def)

lemma updateFilter_cursor: "0 \<le> cursor m \<Longrightarrow> cursor_in_range (updateFilter lib m)"
  by (auto simp: cursor_in_range_def updateFilter_def Let_def)

lemma update_input_cursor:
  "0 \<le> cursor m \<Longrightarrow> update_input lib m msg = Inr (m1, c) \<Longrightarrow>
     0 \<le> cursor m1 \<and> (filtered m1 \<noteq> [] \<longrightarrow> cursor m1 < int (length (filtered m1)))"
  using updateFilter_cursor [of "m\<lparr>input := textinput_Update lib (input m) msg\<rparr>" lib]
  by (auto simp: update_input_def cursor_in_range_def)

lemma Update_cursor:
  "cursor_in_range m \<Longrightarrow> Update lib m msg = Inr (m1, c) \<Longrightarrow> cursor_in_range m1"
proof (induction lib m msg rule: Update.induct)
  case (5 lib m)
  then show ?case
    by (auto simp: quit_with_def cursor_in_range_def split: if_splits sum.splits)
qed (auto simp: quit_with_def cursor_in_range_def split: if_splits dest: update_input_cursor)

lemma run_updates_cursor:
  "cursor_in_range m \<Longrightarrow> run_updates lib m msgs = Inr m1 \<Longrightarrow> cursor_in_range m1"
proof (induction msgs arbitrary: m)
  case Nil
  then show ?case by simp
next
  case (Cons msg msgs)
  from Cons.prems(2) obtain m' c where u: "Update lib m msg = Inr (m', c)"
    and r: "run_updates lib m' msgs = Inr m1"
    by (auto split: sum.splits)
  from Cons.IH [OF Update_cursor [OF Cons.prems(1) u] r] show ?case .
qed

text \<open>
  C9 (cursor). In every state that the selector reaches from its initial state, if the
  filtered list is not empty the cursor is at least 0 and below its length; there, Up
  and Ctrl-P move the cursor one position up and do nothing at 0, Down and Ctrl-N move
  it one position down and do nothing at the last position, and recomputing the filter
  after any edit of the input leaves the cursor in range.
\<close>

theorem cursor_stays_in_range:
  assumes "run_updates lib (newPickerModel lib wts) msgs = Inr m" "filtered m \<noteq> []"
  shows "0 \<le> cursor m \<and> cursor m < int (length (filtered m))
       \<and> (\<forall>k \<in> {KeyUp, KeyCtrlP}. \<exists>m1. Update lib m (KeyMsg k) = Inr (m1, CmdNil)
              \<and> filtered m1 = filtered m
              \<and> cursor m1 = (if cursor m = 0 then cursor m else cursor m - 1))
       \<and> (\<forall>k \<in> {KeyDown, KeyCtrlN}. \<exists>m1. Update lib m (KeyMsg k) = Inr (m1, CmdNil)
              \<and> filtered m1 = filtered m
              \<and> cursor m1 = (if cursor m = int (length (filtered m)) - 1 then cursor m
                              else cursor m + 1))
       \<and> (\<forall>ti. cursor_in_range (updateFilter lib (m\<lparr>input := ti\<rparr>)))"
proof -
  from run_updates_cursor [OF newPickerModel_cursor assms(1)] assms(2)
  have c: "0 \<le> cursor m" "cursor m < int (length (filtered m))"
    by (simp_all add: cursor_in_range_def)
  have "cursor_in_range (updateFilter lib (m\<lparr>input := ti\<rparr>))" for ti
    by (rule updateFilter_cursor) (use c in simp)
  with c show ?thesis by auto
qed

theorem cursor_stays_in_range_witness:
  "run_updates demo_lib (newPickerModel demo_lib [main_A, feature_x, feature_z])
       [KeyMsg KeyDown, KeyMsg KeyDown, KeyMsg KeyDown]
     = Inr ((newPickerModel demo_lib [main_A, feature_x, feature_z])\<lparr>cursor := 2\<rparr>)
   \<and> filtered ((newPickerModel demo_lib [main_A, feature_x, feature_z])\<lparr>cursor := 2\<rparr>)
       = [0, 1, 2]
   \<and> cursor ((newPickerModel demo_lib [main_A, feature_x, feature_z])\<lparr>cursor := 2\<rparr>)
       < int (length
           (filtered ((newPickerModel demo_lib [main_A, feature_x, feature_z])\<lparr>cursor := 2\<rparr>)))"
proof -
  let ?m = "(newPickerModel demo_lib [main_A, feature_x, feature_z])\<lparr>cursor := 2\<rparr>"
  have r: "run_updates demo_lib (newPickerModel demo_lib [main_A, feature_x, feature_z])
             [KeyMsg KeyDown, KeyMsg KeyDown, KeyMsg KeyDown] = Inr ?m"
    by (simp add: newPickerModel_def)
  have f: "filtered ?m = [0, 1, 2]" by (simp add: newPickerModel_def upt_rec)
  then have "filtered ?m \<noteq> []" by simp
  from cursor_stays_in_range [OF r this] r f show ?thesis by blast
qed

subsection \<open>The filter\<close>

lemma is_subsequence_subseq: "is_subsequence xs ys \<longleftrightarrow> subseq xs ys"
  by (induction xs ys rule: is_subsequence.induct) (auto simp: subseq_Cons')







subsection \<open>Inline delete and Remove\<close>

lemma Confirm_frame:
  "Confirm w msg = (r, w1) \<Longrightarrow>
     cat w1 = cat w \<and> ext w1 = ext w \<and> clock w1 = clock w
     \<and> (confirms w \<longrightarrow> r = Inr True \<and> stdin w1 = tl (stdin w))
     \<and> (\<not> confirms w \<longrightarrow> r \<noteq> Inr True)"
  by (auto simp: Confirm_def Let_def emit_def confirms_def split: option.splits list.splits)

lemma Confirm_independent:
  "fst (Confirm w msg) = fst (Confirm w msg') \<and> stdin (snd (Confirm w msg)) = stdin (snd (Confirm w msg'))"
  by (auto simp: Confirm_def Let_def emit_def split: option.splits list.splits)

text \<open>
  C3 (inline delete), as amended. \<^verbatim>\<open>deleteWorktree\<close> and the second half of \<^verbatim>\<open>runRemove\<close>
  reject a main worktree, each with its own message and without touching the state; when
  the user does not confirm they return the same result and leave catalog and outside
  state as they were; when git removes the worktree at the first attempt, both succeed
  and leave the same state, the row tombstoned. When that first removal fails with an
  error, \<^verbatim>\<open>runRemove\<close> without \<^verbatim>\<open>--force\<close> returns that error with the hint and leaves the
  catalog as it was, whereas \<^verbatim>\<open>deleteWorktree\<close> does not report it and removes with force
  at once. It then leaves the state that \<^verbatim>\<open>runRemove --force\<close> leaves when started after
  the failed attempt: both succeed with the row tombstoned when the forced removal
  succeeds; when it fails too, both fail and leave the catalog as it was, \<^verbatim>\<open>runRemove\<close>
  with the hint around the error of the forced removal, \<^verbatim>\<open>deleteWorktree\<close> with that
  error without the hint.
\<close>

theorem inline_delete_forces:
  "(IsMain wt \<longrightarrow>
       deleteWorktree env w wt = (Some CannotDeleteMainWorktree, w)
     \<and> runRemove_worktree env force w wt = (Some CannotRemoveMainWorktree, w))
   \<and> (\<not> IsMain wt \<and> \<not> confirms w \<longrightarrow>
         fst (deleteWorktree env w wt) = fst (runRemove_worktree env force w wt)
       \<and> same_effect (snd (deleteWorktree env w wt)) (snd (runRemove_worktree env force w wt))
       \<and> cat (snd (deleteWorktree env w wt)) = cat w
       \<and> ext (snd (deleteWorktree env w wt)) = ext w)
   \<and> (\<forall>g1. \<not> IsMain wt \<and> confirms w
         \<and> RemoveWorktree env (ext w) (RepoPath wt) (Path wt) = (None, g1) \<longrightarrow>
         fst (deleteWorktree env w wt) = None
       \<and> fst (runRemove_worktree env False w wt) = None
       \<and> same_effect (snd (deleteWorktree env w wt)) (snd (runRemove_worktree env False w wt))
       \<and> ext (snd (deleteWorktree env w wt)) = g1
       \<and> cat (snd (deleteWorktree env w wt)) = SoftDeleteWorktree (clock w) (cat w) (ID wt))
   \<and> (\<forall>err g1. \<not> IsMain wt \<and> confirms w
         \<and> RemoveWorktree env (ext w) (RepoPath wt) (Path wt) = (Some err, g1) \<longrightarrow>
         fst (runRemove_worktree env False w wt) = Some (FailedToRemoveWorktreeUseForce err)
       \<and> cat (snd (runRemove_worktree env False w wt)) = cat w
       \<and> ext (snd (runRemove_worktree env False w wt)) = g1
       \<and> same_effect (snd (deleteWorktree env w wt))
            (snd (runRemove_worktree env True (w\<lparr>ext := g1\<rparr>) wt))
       \<and> (\<forall>g2. RemoveWorktreeForce env g1 (RepoPath wt) (Path wt) = (None, g2) \<longrightarrow>
              fst (deleteWorktree env w wt) = None
            \<and> fst (runRemove_worktree env True (w\<lparr>ext := g1\<rparr>) wt) = None
            \<and> ext (snd (deleteWorktree env w wt)) = g2
            \<and> cat (snd (deleteWorktree env w wt))
                = SoftDeleteWorktree (clock w) (cat w) (ID wt))
       \<and> (\<forall>err2 g2. RemoveWorktreeForce env g1 (RepoPath wt) (Path wt) = (Some err2, g2) \<longrightarrow>
              fst (deleteWorktree env w wt) = Some (FailedToRemoveWorktree err2)
            \<and> fst (runRemove_worktree env True (w\<lparr>ext := g1\<rparr>) wt)
                = Some (FailedToRemoveWorktreeUseForce err2)
            \<and> ext (snd (deleteWorktree env w wt)) = g2
            \<and> cat (snd (deleteWorktree env w wt)) = cat w))"
proof -
  have a: "deleteWorktree env w wt = (Some CannotDeleteMainWorktree, w)
         \<and> runRemove_worktree env force w wt = (Some CannotRemoveMainWorktree, w)"
    if "IsMain wt"
    using that by (simp add: deleteWorktree_def runRemove_worktree_def)
  have b: "fst (deleteWorktree env w wt) = fst (runRemove_worktree env force w wt)
       \<and> same_effect (snd (deleteWorktree env w wt)) (snd (runRemove_worktree env force w wt))
       \<and> cat (snd (deleteWorktree env w wt)) = cat w
       \<and> ext (snd (deleteWorktree env w wt)) = ext w"
    if "\<not> IsMain wt" "\<not> confirms w"
    using that
    by (auto simp: same_effect_def deleteWorktree_def runRemove_worktree_def
          Confirm_def Let_def emit_def confirms_def split: option.splits list.splits)
  have c: "fst (deleteWorktree env w wt) = None
       \<and> fst (runRemove_worktree env False w wt) = None
       \<and> same_effect (snd (deleteWorktree env w wt)) (snd (runRemove_worktree env False w wt))
       \<and> ext (snd (deleteWorktree env w wt)) = g1
       \<and> cat (snd (deleteWorktree env w wt)) = SoftDeleteWorktree (clock w) (cat w) (ID wt)"
    if "\<not> IsMain wt" "confirms w"
      "RemoveWorktree env (ext w) (RepoPath wt) (Path wt) = (None, g1)" for g1
    using that
    by (auto simp: same_effect_def deleteWorktree_def runRemove_worktree_def
          Confirm_def Let_def emit_def confirms_def split: option.splits list.splits)
  have d: "fst (runRemove_worktree env False w wt) = Some (FailedToRemoveWorktreeUseForce err)
       \<and> cat (snd (runRemove_worktree env False w wt)) = cat w
       \<and> ext (snd (runRemove_worktree env False w wt)) = g1
       \<and> same_effect (snd (deleteWorktree env w wt))
            (snd (runRemove_worktree env True (w\<lparr>ext := g1\<rparr>) wt))"
    if "\<not> IsMain wt" "confirms w"
      "RemoveWorktree env (ext w) (RepoPath wt) (Path wt) = (Some err, g1)" for err g1
    using that
    by (auto simp: same_effect_def deleteWorktree_def runRemove_worktree_def
          Confirm_def Let_def emit_def confirms_def split: option.splits list.splits prod.splits)
  have e: "fst (deleteWorktree env w wt) = None
            \<and> fst (runRemove_worktree env True (w\<lparr>ext := g1\<rparr>) wt) = None
            \<and> ext (snd (deleteWorktree env w wt)) = g2
            \<and> cat (snd (deleteWorktree env w wt))
                = SoftDeleteWorktree (clock w) (cat w) (ID wt)"
    if "\<not> IsMain wt" "confirms w"
      "RemoveWorktree env (ext w) (RepoPath wt) (Path wt) = (Some err, g1)"
      "RemoveWorktreeForce env g1 (RepoPath wt) (Path wt) = (None, g2)" for err g1 g2
    using that
    by (auto simp: deleteWorktree_def runRemove_worktree_def
          Confirm_def Let_def emit_def confirms_def split: option.splits list.splits)
  have f: "fst (deleteWorktree env w wt) = Some (FailedToRemoveWorktree err2)
            \<and> fst (runRemove_worktree env True (w\<lparr>ext := g1\<rparr>) wt)
                = Some (FailedToRemoveWorktreeUseForce err2)
            \<and> ext (snd (deleteWorktree env w wt)) = g2
            \<and> cat (snd (deleteWorktree env w wt)) = cat w"
    if "\<not> IsMain wt" "confirms w"
      "RemoveWorktree env (ext w) (RepoPath wt) (Path wt) = (Some err, g1)"
      "RemoveWorktreeForce env g1 (RepoPath wt) (Path wt) = (Some err2, g2)" for err g1 err2 g2
    using that
    by (auto simp: deleteWorktree_def runRemove_worktree_def
          Confirm_def Let_def emit_def confirms_def split: option.splits list.splits)
  from a b c d e f show ?thesis by blast
qed

theorem inline_delete_forces_witness:
  "IsMain main_A
   \<and> deleteWorktree demo_env demo_world main_A = (Some CannotDeleteMainWorktree, demo_world)
   \<and> \<not> IsMain feature_z \<and> \<not> confirms (demo_world\<lparr>stdin := [110]\<rparr>)
   \<and> fst (deleteWorktree demo_env (demo_world\<lparr>stdin := [110]\<rparr>) feature_z) = None
   \<and> fst (runRemove_worktree demo_env False (demo_world\<lparr>stdin := [110]\<rparr>) feature_z) = None
   \<and> cat (snd (deleteWorktree demo_env (demo_world\<lparr>stdin := [110]\<rparr>) feature_z)) = demo_catalog
   \<and> confirms demo_world
   \<and> RemoveWorktree demo_env (ext demo_world) (RepoPath feature_z) (Path feature_z)
       = (None, \<lparr>dirs = [''/A'', ''/A.worktrees/feature-x'', ''/A.worktrees/feature-y''],
                 dirty = [''/A.worktrees/feature-x'']\<rparr>)
   \<and> fst (deleteWorktree demo_env demo_world feature_z) = None
   \<and> fst (runRemove_worktree demo_env False demo_world feature_z) = None
   \<and> same_effect (snd (deleteWorktree demo_env demo_world feature_z))
        (snd (runRemove_worktree demo_env False demo_world feature_z))
   \<and> \<not> IsMain feature_x
   \<and> RemoveWorktree demo_env (ext demo_world) (RepoPath feature_x) (Path feature_x)
       = (Some (ExternalError ''exit status 128''), ext demo_world)
   \<and> RemoveWorktreeForce demo_env (ext demo_world) (RepoPath feature_x) (Path feature_x)
       = (None, \<lparr>dirs = [''/A'', ''/A.worktrees/feature-y'', ''/A.worktrees/feature-z''],
                 dirty = [''/A.worktrees/feature-x'']\<rparr>)
   \<and> fst (runRemove_worktree demo_env False demo_world feature_x)
       = Some (FailedToRemoveWorktreeUseForce (ExternalError ''exit status 128''))
   \<and> fst (deleteWorktree demo_env demo_world feature_x) = None
   \<and> same_effect (snd (deleteWorktree demo_env demo_world feature_x))
        (snd (runRemove_worktree demo_env True demo_world feature_x))
   \<and> \<not> IsMain stale
   \<and> RemoveWorktree demo_env (ext demo_world) (RepoPath stale) (Path stale)
       = (Some (ExternalError ''exit status 128''), ext demo_world)
   \<and> RemoveWorktreeForce demo_env (ext demo_world) (RepoPath stale) (Path stale)
       = (Some (ExternalError ''exit status 128''), ext demo_world)
   \<and> fst (deleteWorktree demo_env demo_world stale)
       = Some (FailedToRemoveWorktree (ExternalError ''exit status 128''))
   \<and> fst (runRemove_worktree demo_env True demo_world stale)
       = Some (FailedToRemoveWorktreeUseForce (ExternalError ''exit status 128''))
   \<and> cat (snd (deleteWorktree demo_env demo_world stale)) = demo_catalog"
proof -
  let ?n = "demo_world\<lparr>stdin := [110]\<rparr>"
  have e: "demo_world\<lparr>ext := ext demo_world\<rparr> = demo_world" by simp
  have cw: "cat demo_world = demo_catalog" "cat ?n = demo_catalog" by (simp_all add: demo_world_def)
  have m: "IsMain main_A" by (simp add: main_A_def)
  have nz: "\<not> IsMain feature_z" "\<not> confirms ?n"
    by (simp_all add: feature_z_def confirms_def demo_world_def)
  have z: "confirms demo_world"
    "RemoveWorktree demo_env (ext demo_world) (RepoPath feature_z) (Path feature_z)
       = (None, \<lparr>dirs = [''/A'', ''/A.worktrees/feature-x'', ''/A.worktrees/feature-y''],
                 dirty = [''/A.worktrees/feature-x'']\<rparr>)"
    by (simp_all add: RemoveWorktree_def confirms_def demo_defs)
  have x: "\<not> IsMain feature_x"
    "RemoveWorktree demo_env (ext demo_world) (RepoPath feature_x) (Path feature_x)
       = (Some (ExternalError ''exit status 128''), ext demo_world)"
    "RemoveWorktreeForce demo_env (ext demo_world) (RepoPath feature_x) (Path feature_x)
       = (None, \<lparr>dirs = [''/A'', ''/A.worktrees/feature-y'', ''/A.worktrees/feature-z''],
                 dirty = [''/A.worktrees/feature-x'']\<rparr>)"
    by (simp_all add: RemoveWorktree_def RemoveWorktreeForce_def demo_defs)
  have s: "\<not> IsMain stale"
    "RemoveWorktree demo_env (ext demo_world) (RepoPath stale) (Path stale)
       = (Some (ExternalError ''exit status 128''), ext demo_world)"
    "RemoveWorktreeForce demo_env (ext demo_world) (RepoPath stale) (Path stale)
       = (Some (ExternalError ''exit status 128''), ext demo_world)"
    by (simp_all add: RemoveWorktree_def RemoveWorktreeForce_def stale_def demo_defs)
  from inline_delete_forces [of main_A demo_env demo_world False] m
  have r1: "deleteWorktree demo_env demo_world main_A = (Some CannotDeleteMainWorktree, demo_world)"
    by blast
  have d0: "fst (deleteWorktree demo_env ?n feature_z) = None"
    by (simp add: deleteWorktree_def Confirm_def emit_def feature_z_def demo_world_def)
  from inline_delete_forces [of feature_z demo_env ?n False] nz d0 cw
  have r2: "fst (runRemove_worktree demo_env False ?n feature_z) = None"
    "cat (snd (deleteWorktree demo_env ?n feature_z)) = demo_catalog"
    by simp_all
  from inline_delete_forces [of feature_z demo_env demo_world False] nz(1) z
  have r3: "fst (deleteWorktree demo_env demo_world feature_z) = None"
    "fst (runRemove_worktree demo_env False demo_world feature_z) = None"
    "same_effect (snd (deleteWorktree demo_env demo_world feature_z))
        (snd (runRemove_worktree demo_env False demo_world feature_z))"
    by blast+
  from inline_delete_forces [of feature_x demo_env demo_world False] x z(1) e
  have r4: "fst (runRemove_worktree demo_env False demo_world feature_x)
       = Some (FailedToRemoveWorktreeUseForce (ExternalError ''exit status 128''))"
    "fst (deleteWorktree demo_env demo_world feature_x) = None"
    "same_effect (snd (deleteWorktree demo_env demo_world feature_x))
        (snd (runRemove_worktree demo_env True demo_world feature_x))"
    by simp_all
  from inline_delete_forces [of stale demo_env demo_world False] s z(1) e cw
  have r5: "fst (deleteWorktree demo_env demo_world stale)
       = Some (FailedToRemoveWorktree (ExternalError ''exit status 128''))"
    "fst (runRemove_worktree demo_env True demo_world stale)
       = Some (FailedToRemoveWorktreeUseForce (ExternalError ''exit status 128''))"
    "cat (snd (deleteWorktree demo_env demo_world stale)) = demo_catalog"
    by simp_all
  from m r1 nz d0 r2 z r3 x r4 s r5 show ?thesis by blast
qed

text \<open>
  The claim as it was stated fails on \<^verbatim>\<open>feature-x\<close>, which git refuses to remove without
  force: \<^verbatim>\<open>runRemove\<close> reports the failure and changes nothing, \<^verbatim>\<open>deleteWorktree\<close> succeeds,
  the directory is gone and the row is tombstoned.
\<close>

theorem inline_delete_identical_counterexample:
  "\<not> IsMain feature_x
   \<and> fst (RemoveWorktree demo_env (ext demo_world) (RepoPath feature_x) (Path feature_x))
       = Some (ExternalError ''exit status 128'')
   \<and> fst (runRemove_worktree demo_env False demo_world feature_x)
       = Some (FailedToRemoveWorktreeUseForce (ExternalError ''exit status 128''))
   \<and> ext (snd (runRemove_worktree demo_env False demo_world feature_x)) = ext demo_world
   \<and> cat (snd (runRemove_worktree demo_env False demo_world feature_x)) = cat demo_world
   \<and> fst (deleteWorktree demo_env demo_world feature_x) = None
   \<and> dirs (ext (snd (deleteWorktree demo_env demo_world feature_x)))
       = [''/A'', ''/A.worktrees/feature-y'', ''/A.worktrees/feature-z'']
   \<and> map w_deleted_at (worktrees_table (cat (snd (deleteWorktree demo_env demo_world feature_x))))
       = [None, Some 100, Some 5, None, None]"
  by (simp add: deleteWorktree_def runRemove_worktree_def Confirm_def emit_def
        RemoveWorktree_def RemoveWorktreeForce_def demo_defs db_defs)

subsection \<open>Constraints of the schema\<close>

text \<open>
  The statements keep the constraints of the schema, so an upsert finds at most one row
  with its path.
\<close>

lemma next_rowid_fresh: "next_rowid ids \<notin> set ids"
proof (cases "ids = []")
  case True
  then show ?thesis by simp
next
  case False
  have "x < next_rowid ids" if "x \<in> set ids" for x
  proof -
    from that have "x \<le> Max (set ids)" by simp
    with False show ?thesis by (simp add: next_rowid_def)
  qed
  then show ?thesis by blast
qed

lemma map_keep: "(\<And>r. f (g r) = f r) \<Longrightarrow> map f (map g rows) = map f rows"
  by (induction rows) simp_all

lemma UpsertWorktree_unique:
  assumes "unique_rows c" "UpsertWorktree now c wt = Inr (c1, wt1)"
  shows "unique_rows c1"
proof (cases "find (\<lambda>r. w_path r = Path wt) (worktrees_table c)")
  case None
  then have "Path wt \<notin> set (map w_path (worktrees_table c))"
    by (auto simp: find_None_iff)
  with None assms next_rowid_fresh [of "map w_id (worktrees_table c)"] show ?thesis
    by (auto simp: unique_rows_def UpsertWorktree_def Let_def split: if_splits)
next
  case (Some hit)
  have "w_path \<circ> upsert_row wt = w_path" "w_id \<circ> upsert_row wt = w_id"
    by (simp_all add: fun_eq_iff)
  with Some assms show ?thesis
    by (auto simp: unique_rows_def UpsertWorktree_def split: if_splits)
qed

lemma UpsertRepo_unique:
  assumes "unique_rows c"
  shows "unique_rows (fst (UpsertRepo now c repo))"
proof (cases "find (\<lambda>r. r_path r = r_path repo) (repos_table c)")
  case None
  then have "r_path repo \<notin> set (map r_path (repos_table c))"
    by (auto simp: find_None_iff)
  with None assms next_rowid_fresh [of "map r_id (repos_table c)"] show ?thesis
    by (auto simp: unique_rows_def UpsertRepo_def Let_def)
next
  case (Some hit)
  have "r_path \<circ> upsert_repo_row repo = r_path" "r_id \<circ> upsert_repo_row repo = r_id"
    by (simp_all add: fun_eq_iff upsert_repo_row_def)
  with Some assms show ?thesis
    by (auto simp: unique_rows_def UpsertRepo_def)
qed

lemma exec_unique:
  assumes "unique_rows c" "exec now c st = Inr c1"
  shows "unique_rows c1"
proof (cases st)
  case (StUpsertWorktree wt)
  with assms(2) obtain wt1 where "UpsertWorktree now c wt = Inr (c1, wt1)"
    by (auto split: sum.splits)
  with assms(1) show ?thesis by (rule UpsertWorktree_unique)
next
  case (StSoftDeleteWorktree i)
  have "map w_path (worktrees_table (SoftDeleteWorktree now c i)) = map w_path (worktrees_table c)"
    "map w_id (worktrees_table (SoftDeleteWorktree now c i)) = map w_id (worktrees_table c)"
    unfolding SoftDeleteWorktree_def by (simp_all add: comp_def if_distrib cong: if_cong)
  with assms StSoftDeleteWorktree show ?thesis
    by (auto simp: unique_rows_def) (simp_all add: SoftDeleteWorktree_def)
next
  case (StSoftDeleteWorktreeByPath p)
  have "map w_path (worktrees_table (SoftDeleteWorktreeByPath now c p)) = map w_path (worktrees_table c)"
    "map w_id (worktrees_table (SoftDeleteWorktreeByPath now c p)) = map w_id (worktrees_table c)"
    unfolding SoftDeleteWorktreeByPath_def by (simp_all add: comp_def if_distrib cong: if_cong)
  with assms StSoftDeleteWorktreeByPath show ?thesis
    by (auto simp: unique_rows_def) (simp_all add: SoftDeleteWorktreeByPath_def)
next
  case (StSoftDeleteMissingWorktrees rid ps)
  with assms(2) have c1: "c1 = missing_marked now c rid ps"
    by (simp add: SoftDeleteMissing_Inr)
  have "map w_path (worktrees_table (missing_marked now c rid ps)) = map w_path (worktrees_table c)"
    "map w_id (worktrees_table (missing_marked now c rid ps)) = map w_id (worktrees_table c)"
    unfolding SoftDeleteMissing_rows by (rule map_keep, simp)+
  with assms(1) c1 show ?thesis
    by (auto simp: unique_rows_def)
next
  case (StUpsertRepo repo)
  with assms UpsertRepo_unique [of c now repo] show ?thesis by auto
next
  case (StSoftDeleteRepo i)
  have "map r_path (repos_table (SoftDeleteRepo now c i)) = map r_path (repos_table c)"
    "map r_id (repos_table (SoftDeleteRepo now c i)) = map r_id (repos_table c)"
    unfolding SoftDeleteRepo_def by (simp_all add: comp_def if_distrib cong: if_cong)
  with assms StSoftDeleteRepo show ?thesis
    by (auto simp: unique_rows_def) (simp_all add: SoftDeleteRepo_def)
next
  case (StUpdateLastSynced i)
  have "map r_path (repos_table (UpdateLastSynced now c i)) = map r_path (repos_table c)"
    "map r_id (repos_table (UpdateLastSynced now c i)) = map r_id (repos_table c)"
    unfolding UpdateLastSynced_def by (simp_all add: comp_def if_distrib cong: if_cong)
  with assms StUpdateLastSynced show ?thesis
    by (auto simp: unique_rows_def) (simp_all add: UpdateLastSynced_def)
next
  case StSelect
  with assms show ?thesis by simp
qed

subsection \<open>The target path of Add\<close>

lemma split_slash_nonempty [simp]: "split_slash p \<noteq> []"
  by (induction p) (auto split: list.splits)

lemma split_slash_append:
  "split_slash (a @ CHR ''/'' # b) = split_slash a @ split_slash b"
  by (induction a) (auto split: list.splits)

lemma split_slash_plain: "CHR ''/'' \<notin> set e \<Longrightarrow> split_slash e = [e]"
  by (induction e) (auto split: list.splits)

lemma split_slash_elems: "e \<in> set (split_slash p) \<Longrightarrow> CHR ''/'' \<notin> set e"
  by (induction p arbitrary: e) (auto split: list.splits if_splits)

lemma split_slash_append_plain:
  "CHR ''/'' \<notin> set b \<Longrightarrow>
     split_slash (a @ b) = butlast (split_slash a) @ [last (split_slash a) @ b]"
proof (induction a)
  case Nil
  then show ?case by (simp add: split_slash_plain)
next
  case (Cons c a)
  obtain e es where s: "split_slash a = e # es"
    by (cases "split_slash a") simp_all
  show ?case
  proof (cases "es = []")
    case True
    with Cons s show ?thesis by simp
  next
    case False
    with Cons s show ?thesis by simp
  qed
qed

lemma join_slash_snoc: "st \<noteq> [] \<Longrightarrow> join_slash (st @ [e]) = join_slash st @ ''/'' @ e"
  by (induction st rule: join_slash.induct) auto

lemma split_join_slash:
  "st \<noteq> [] \<Longrightarrow> \<forall>e \<in> set st. CHR ''/'' \<notin> set e \<Longrightarrow> split_slash (join_slash st) = st"
proof (induction st rule: join_slash.induct)
  case 1
  then show ?case by simp
next
  case (2 e)
  then show ?case by (simp add: split_slash_plain)
next
  case (3 e e' es)
  have "split_slash (e @ CHR ''/'' # join_slash (e' # es)) = split_slash e @ split_slash (join_slash (e' # es))"
    by (rule split_slash_append)
  with 3 show ?case by (simp add: split_slash_plain)
qed

lemma hd_join_slash:
  "st \<noteq> [] \<Longrightarrow> hd st \<noteq> [] \<Longrightarrow> join_slash st \<noteq> [] \<and> hd (join_slash st) = hd (hd st)"
  by (induction st rule: join_slash.induct) auto

lemma Clean_alt:
  "Clean p = (if (if is_rooted p then ''/'' else []) @ join_slash (path_stack p) = [] then ''.''
              else (if is_rooted p then ''/'' else []) @ join_slash (path_stack p))"
  by (simp add: Clean_def Let_def is_rooted_def path_elems_def path_stack_def)

lemma foldl_clean_step_plain:
  "''..'' \<notin> set es \<Longrightarrow> foldl (clean_step r) pre es = pre @ es"
  by (induction es arbitrary: pre) (auto simp: clean_step_def)

lemma foldl_clean_step_dotdots:
  "\<not> r \<Longrightarrow> foldl (clean_step r) (replicate j ''..'') (replicate k ''..'') = replicate (j + k) ''..''"
proof (induction k arbitrary: j)
  case 0
  then show ?case by simp
next
  case (Suc k)
  have "clean_step r (replicate j ''..'') ''..'' = replicate (Suc j) ''..''"
    using Suc.prems by (cases j) (auto simp: clean_step_def replicate_append_same)
  moreover from Suc.IH [OF Suc.prems, of "Suc j"]
  have "foldl (clean_step r) (replicate (Suc j) ''..'') (replicate k ''..'')
          = replicate (Suc j + k) ''..''" .
  ultimately show ?case by simp
qed

lemma normal_stack_replay:
  assumes "normal_stack r st"
  shows "foldl (clean_step r) [] st = st"
proof -
  from assms obtain k rest where st: "st = replicate k ''..'' @ rest"
    and rest: "''..'' \<notin> set rest" and r: "r \<longrightarrow> k = 0"
    unfolding normal_stack_def by blast
  show ?thesis
  proof (cases r)
    case True
    with r st rest show ?thesis by (simp add: foldl_clean_step_plain)
  next
    case False
    from foldl_clean_step_dotdots [OF False, of 0 k]
    have "foldl (clean_step r) [] (replicate k ''..'') = replicate k ''..''" by simp
    with st rest show ?thesis by (simp add: foldl_clean_step_plain)
  qed
qed

lemma normal_stack_step:
  assumes "normal_stack r st"
  shows "normal_stack r (clean_step r st e)"
proof -
  from assms obtain k rest where st: "st = replicate k ''..'' @ rest"
    and rest: "''..'' \<notin> set rest" and r: "r \<longrightarrow> k = 0"
    unfolding normal_stack_def by blast
  show ?thesis
  proof (cases "e = ''..''")
    case False
    have "clean_step r st e = replicate k ''..'' @ (rest @ [e])"
      using False st by (simp add: clean_step_def)
    moreover have "''..'' \<notin> set (rest @ [e])" using False rest by auto
    ultimately show ?thesis unfolding normal_stack_def using r by blast
  next
    case True
    show ?thesis
    proof (cases "rest = []")
      case False
      then have "last rest \<in> set rest" by simp
      with rest have "last rest \<noteq> ''..''" by metis
      with False have l: "st \<noteq> []" "last st \<noteq> ''..''"
        "butlast st = replicate k ''..'' @ butlast rest"
        using st by (simp_all add: butlast_append)
      then have "clean_step r st e = replicate k ''..'' @ butlast rest"
        using True by (simp add: clean_step_def)
      moreover have "''..'' \<notin> set (butlast rest)" using rest by (auto dest: in_set_butlastD)
      ultimately show ?thesis unfolding normal_stack_def using r by blast
    next
      case rest_empty: True
      show ?thesis
      proof (cases r)
        case True
        with r st rest_empty have "st = []" by simp
        with True \<open>e = ''..''\<close> have "clean_step r st e = []" by (simp add: clean_step_def)
        then show ?thesis unfolding normal_stack_def by simp
      next
        case False
        have "clean_step r st e = replicate (Suc k) ''..''"
          using False st rest_empty \<open>e = ''..''\<close>
          by (cases k) (auto simp: clean_step_def replicate_append_same)
        then have "clean_step r st e = replicate (Suc k) ''..'' @ []" by simp
        then show ?thesis unfolding normal_stack_def using False by (metis empty_iff empty_set)
      qed
    qed
  qed
qed

lemma normal_stack_foldl: "normal_stack r st \<Longrightarrow> normal_stack r (foldl (clean_step r) st es)"
  by (induction es arbitrary: st) (simp_all add: normal_stack_step)

lemma normal_stack_Nil: "normal_stack r []"
  unfolding normal_stack_def by simp

lemma clean_step_set: "set (clean_step r st e) \<subseteq> set st \<union> {e}"
  by (auto simp: clean_step_def dest: in_set_butlastD)

lemma foldl_clean_step_set: "set (foldl (clean_step r) st es) \<subseteq> set st \<union> set es"
proof (induction es arbitrary: st)
  case Nil
  then show ?case by simp
next
  case (Cons e es)
  from Cons.IH [of "clean_step r st e"] clean_step_set [of r st e] show ?case by auto
qed

lemma path_stack_elems:
  "e \<in> set (path_stack p) \<Longrightarrow> e \<noteq> [] \<and> e \<noteq> ''.'' \<and> CHR ''/'' \<notin> set e"
proof -
  assume "e \<in> set (path_stack p)"
  with foldl_clean_step_set [of "is_rooted p" "[]" "path_elems p"]
  have "e \<in> set (path_elems p)" by (auto simp: path_stack_def)
  then show ?thesis by (auto simp: path_elems_def dest: split_slash_elems)
qed

lemma path_stack_normal: "normal_stack (is_rooted p) (path_stack p)"
  unfolding path_stack_def by (rule normal_stack_foldl) (rule normal_stack_Nil)

lemma Clean_on_stack:
  assumes "path_stack y \<noteq> []"
  shows "Clean y = (if is_rooted y then ''/'' else []) @ join_slash (path_stack y)"
proof -
  from assms have "hd (path_stack y) \<in> set (path_stack y)" by simp
  then have "hd (path_stack y) \<noteq> []" by (auto dest: path_stack_elems)
  with hd_join_slash [OF assms] have "join_slash (path_stack y) \<noteq> []" by simp
  then show ?thesis by (simp add: Clean_alt)
qed

lemma Clean_Clean_append:
  assumes nonempty: "path_stack y \<noteq> []"
    and n: "CHR ''/'' \<notin> set n" "n \<noteq> []" "n \<noteq> ''.''" "n \<noteq> ''..''"
  shows "Clean (Clean y @ ''/'' @ n) = Clean y @ ''/'' @ n"
proof -
  define r where "r = is_rooted y"
  define st where "st = path_stack y"
  define root where "root = (if r then ''/'' else [])"
  define d where "d = root @ join_slash st"
  have st: "st \<noteq> []" using nonempty by (simp add: st_def)
  have dy: "Clean y = d"
    using Clean_on_stack [OF nonempty] by (simp add: d_def root_def st_def r_def)
  have elems: "\<forall>e \<in> set st. e \<noteq> [] \<and> e \<noteq> ''.'' \<and> CHR ''/'' \<notin> set e"
    unfolding st_def by (auto dest: path_stack_elems)
  have hdst: "hd st \<noteq> []" "CHR ''/'' \<notin> set (hd st)"
    using st elems by (simp_all add: hd_in_set)
  have j: "join_slash st \<noteq> []" "hd (join_slash st) = hd (hd st)"
    using hd_join_slash [OF st hdst(1)] by simp_all
  have "hd (hd st) \<in> set (hd st)" using hdst(1) by simp
  with hdst(2) have "hd (hd st) \<noteq> CHR ''/''" by metis
  with j have rooted: "is_rooted (d @ ''/'' @ n) = r"
    by (cases r) (simp_all add: is_rooted_def d_def root_def)
  have sj: "split_slash (join_slash st) = st"
    using st elems by (simp add: split_join_slash)
  have sd: "split_slash d = (if r then [[]] else []) @ st"
    using sj by (cases r) (simp_all add: d_def root_def)
  have "split_slash (d @ CHR ''/'' # n) = split_slash d @ split_slash n"
    by (rule split_slash_append)
  with sd n(1) have sp: "split_slash (d @ ''/'' @ n) = (if r then [[]] else []) @ st @ [n]"
    by (simp add: split_slash_plain)
  have fl: "filter (\<lambda>e. e \<noteq> [] \<and> e \<noteq> ''.'') st = st"
    using elems by (simp add: filter_id_conv)
  have pe: "path_elems (d @ ''/'' @ n) = st @ [n]"
    unfolding path_elems_def sp using fl n by (cases r) simp_all
  have "normal_stack r st" unfolding r_def st_def by (rule path_stack_normal)
  then have "foldl (clean_step r) [] st = st" by (rule normal_stack_replay)
  then have "foldl (clean_step r) [] (st @ [n]) = clean_step r st n" by simp
  also have "\<dots> = st @ [n]" using n(4) by (simp add: clean_step_def)
  finally have ps: "path_stack (d @ ''/'' @ n) = st @ [n]"
    unfolding path_stack_def pe rooted .
  then have "path_stack (d @ ''/'' @ n) \<noteq> []" by simp
  from Clean_on_stack [OF this]
  have "Clean (d @ ''/'' @ n) = root @ join_slash (st @ [n])"
    unfolding ps rooted root_def .
  also have "\<dots> = d @ ''/'' @ n"
    using st by (simp add: join_slash_snoc d_def)
  finally show ?thesis unfolding dy .
qed

lemma path_stack_suffix_elem:
  assumes "CHR ''/'' \<notin> set b" "b \<noteq> []" "length b > 2"
  shows "path_stack (a @ b) \<noteq> []"
proof -
  let ?e = "last (split_slash a) @ b"
  have e: "?e \<noteq> []" "?e \<noteq> ''.''" "?e \<noteq> ''..''"
    using assms by (auto simp: append_eq_Cons_conv)
  have "split_slash (a @ b) = butlast (split_slash a) @ [?e]"
    using assms(1) by (rule split_slash_append_plain)
  then have "path_elems (a @ b)
      = filter (\<lambda>e. e \<noteq> [] \<and> e \<noteq> ''.'') (butlast (split_slash a)) @ [?e]"
    using e by (simp add: path_elems_def)
  then have "path_stack (a @ b)
      = foldl (clean_step (is_rooted (a @ b))) []
          (filter (\<lambda>e. e \<noteq> [] \<and> e \<noteq> ''.'') (butlast (split_slash a))) @ [?e]"
    using e(3) by (simp add: path_stack_def clean_step_def)
  then show ?thesis by simp
qed

lemma Clean_nonempty: "Clean p \<noteq> []"
  by (simp add: Clean_def Let_def)

lemma GetDefaultWorktreesDir_eq:
  "GetDefaultWorktreesDir repoPath
     = Clean (Dir repoPath @ ''/'' @ Base repoPath @ ''.worktrees'')"
  by (simp add: GetDefaultWorktreesDir_def GetRepoName_def Join_def Dir_def Clean_nonempty
        Let_def)

lemma targetPath_of_eq:
  "targetPath_of repoPath branch
     = Clean (GetDefaultWorktreesDir repoPath @ ''/'' @ dirName_of branch)"
  by (simp add: targetPath_of_def Join_def GetDefaultWorktreesDir_eq Clean_nonempty)

lemma dirName_of_no_slash: "CHR ''/'' \<notin> set (dirName_of branch)"
  by (auto simp: dirName_of_def ReplaceAll_def)

lemma targetPath_of_plain:
  assumes "dirName_of branch \<noteq> []" "dirName_of branch \<noteq> ''.''" "dirName_of branch \<noteq> ''..''"
  shows "targetPath_of repoPath branch
           = GetDefaultWorktreesDir repoPath @ ''/'' @ dirName_of branch"
proof -
  let ?y = "Dir repoPath @ ''/'' @ Base repoPath @ ''.worktrees''"
  have "path_stack ((Dir repoPath @ ''/'' @ Base repoPath) @ ''.worktrees'') \<noteq> []"
    by (rule path_stack_suffix_elem) simp_all
  then have "path_stack ?y \<noteq> []" by simp
  from Clean_Clean_append [OF this dirName_of_no_slash assms]
  show ?thesis by (simp add: targetPath_of_eq GetDefaultWorktreesDir_eq)
qed

lemma find_SomeD: "find P xs = Some x \<Longrightarrow> P x \<and> x \<in> set xs"
  by (induction xs) (auto split: if_splits)

lemma ensureCurrentRepoInDB_registers:
  assumes "git_GetMainRepoPath env (ext w) cwd = Inr p" "GetRepoByPath (cat w) p = None"
  shows "\<exists>repo. GetRepoByPath (cat (snd (ensureCurrentRepoInDB env w cwd))) p = Some repo
           \<and> r_worktrees_dir repo = GetDefaultWorktreesDir p"
proof -
  let ?new = "\<lparr>r_id = 0, r_path = p, r_name = GetRepoName p,
               r_worktrees_dir = GetDefaultWorktreesDir p,
               r_last_synced_at = None, r_created_at = 0, r_deleted_at = None\<rparr>"
  let ?c1 = "fst (UpsertRepo (clock w) (cat w) ?new)"
  have c1: "cat (snd (ensureCurrentRepoInDB env w cwd)) = ?c1"
    using assms by (simp add: ensureCurrentRepoInDB_def)
  have all: "r_worktrees_dir r = GetDefaultWorktreesDir p"
    if "r \<in> set (repos_table ?c1)" "r_path r = p" "r_deleted_at r = None" for r
  proof (cases "find (\<lambda>r. r_path r = p) (repos_table (cat w))")
    case None
    define row where "row = \<lparr>r_id = next_rowid (map r_id (repos_table (cat w))), r_path = p,
        r_name = GetRepoName p, r_worktrees_dir = GetDefaultWorktreesDir p,
        r_last_synced_at = None, r_created_at = clock w, r_deleted_at = None\<rparr>"
    from None have "\<forall>r \<in> set (repos_table (cat w)). r_path r \<noteq> p"
      by (auto simp: find_None_iff)
    moreover from None have "repos_table ?c1 = repos_table (cat w) @ [row]"
      by (simp add: UpsertRepo_def Let_def row_def)
    ultimately have "r = row" using that(1,2) by auto
    then show ?thesis by (simp add: row_def)
  next
    case (Some hit)
    with that(1) obtain r0 where "r = upsert_repo_row ?new r0"
      by (auto simp: UpsertRepo_def)
    with that(2) show ?thesis by (simp add: upsert_repo_row_def split: if_splits)
  qed
  have ex: "\<exists>r \<in> set (repos_table ?c1). r_path r = p \<and> r_deleted_at r = None"
  proof (cases "find (\<lambda>r. r_path r = p) (repos_table (cat w))")
    case None
    then show ?thesis by (simp add: UpsertRepo_def Let_def)
  next
    case (Some hit)
    from find_SomeD [OF this] have "upsert_repo_row ?new hit \<in> set (repos_table ?c1)"
      and "r_path (upsert_repo_row ?new hit) = p"
      and "r_deleted_at (upsert_repo_row ?new hit) = None"
      using Some by (simp_all add: UpsertRepo_def upsert_repo_row_def)
    then show ?thesis by blast
  qed
  then obtain repo where f: "GetRepoByPath ?c1 p = Some repo"
    unfolding GetRepoByPath_def
    by (cases "find (\<lambda>r. r_path r = p \<and> r_deleted_at r = None) (repos_table ?c1)")
       (auto simp: find_None_iff)
  from find_SomeD [OF f [unfolded GetRepoByPath_def]] all
  have "r_worktrees_dir repo = GetDefaultWorktreesDir p" by blast
  with f c1 show ?thesis by simp
qed

lemma ensureCurrentRepoInDB_ext:
  "ensureCurrentRepoInDB env w cwd = (e, w1) \<Longrightarrow> ext w1 = ext w"
  by (auto simp: ensureCurrentRepoInDB_def split: sum.splits option.splits)

text \<open>
  C6 (target of Add), as amended. The directory name is the branch name with every
  \<^verbatim>\<open>/\<close> replaced by \<^verbatim>\<open>-\<close>, so it contains no separator. The target path is
  \<^verbatim>\<open>filepath.Join\<close> of the default worktrees directory of the repository path (the
  value stored with the repository when it is registered) and that name, that is the
  cleaned form of \<^verbatim>\<open>{dir}/{name}\<close>: it is \<^verbatim>\<open>{dir}/{name}\<close> itself unless the name is
  empty, \<^verbatim>\<open>.\<close> or \<^verbatim>\<open>..\<close>, and for \<^verbatim>\<open>/r\<close> and \<^verbatim>\<open>feature/foo\<close> it is
  \<^verbatim>\<open>/r.worktrees/feature-foo\<close>. When the target exists on disk, the workflow fails with
  the already-exists error for that path right after making sure the repository is
  registered, and the outside state is as it was.
\<close>

theorem add_target_path:
  "dirName_of branch = map (\<lambda>c. if c = CHR ''/'' then CHR ''-'' else c) branch
   \<and> CHR ''/'' \<notin> set (dirName_of branch)
   \<and> targetPath_of repoPath branch
       = Clean (GetDefaultWorktreesDir repoPath @ ''/'' @ dirName_of branch)
   \<and> (dirName_of branch \<noteq> [] \<and> dirName_of branch \<noteq> ''.'' \<and> dirName_of branch \<noteq> ''..''
      \<longrightarrow> targetPath_of repoPath branch
            = GetDefaultWorktreesDir repoPath @ ''/'' @ dirName_of branch)
   \<and> targetPath_of ''/r'' ''feature/foo'' = ''/r.worktrees/feature-foo''
   \<and> (git_GetMainRepoPath env (ext w) repoPath = Inr repoPath
        \<and> GetRepoByPath (cat w) repoPath = None
      \<longrightarrow> (\<exists>repo. GetRepoByPath (cat (snd (ensureCurrentRepoInDB env w repoPath))) repoPath
                    = Some repo
                 \<and> r_worktrees_dir repo = GetDefaultWorktreesDir repoPath))
   \<and> (db_open_error w = None \<and> ensureCurrentRepoInDB env w repoPath = (None, w1)
        \<and> os_Stat env (ext w1) (targetPath_of repoPath branch)
      \<longrightarrow> runAddWithBranchFromRepo env w repoPath branch
            = (Some (WorktreeDirectoryAlreadyExists (targetPath_of repoPath branch)), w1)
          \<and> ext w1 = ext w)"
proof -
  have a: "dirName_of branch = map (\<lambda>c. if c = CHR ''/'' then CHR ''-'' else c) branch"
    by (simp add: dirName_of_def ReplaceAll_def)
  have c: "targetPath_of ''/r'' ''feature/foo'' = ''/r.worktrees/feature-foo''"
    by (simp add: targetPath_of_def dirName_of_def ReplaceAll_def GetDefaultWorktreesDir_def
          GetRepoName_def Join_def Dir_def Base_def Clean_def clean_step_def Let_def)
  have d: "runAddWithBranchFromRepo env w repoPath branch
            = (Some (WorktreeDirectoryAlreadyExists (targetPath_of repoPath branch)), w1)
          \<and> ext w1 = ext w"
    if "db_open_error w = None" "ensureCurrentRepoInDB env w repoPath = (None, w1)"
      "os_Stat env (ext w1) (targetPath_of repoPath branch)"
    using that ensureCurrentRepoInDB_ext [OF that(2)]
    by (simp add: runAddWithBranchFromRepo_def Let_def)
  have e: "\<exists>repo. GetRepoByPath (cat (snd (ensureCurrentRepoInDB env w repoPath))) repoPath
                    = Some repo
                 \<and> r_worktrees_dir repo = GetDefaultWorktreesDir repoPath"
    if "git_GetMainRepoPath env (ext w) repoPath = Inr repoPath"
      "GetRepoByPath (cat w) repoPath = None"
    using that by (rule ensureCurrentRepoInDB_registers)
  from a dirName_of_no_slash targetPath_of_eq targetPath_of_plain c d e
  show ?thesis by blast
qed

theorem add_target_path_witness:
  "dirName_of ''feature/foo'' = ''feature-foo''
   \<and> targetPath_of ''/r'' ''feature/foo'' = GetDefaultWorktreesDir ''/r'' @ ''/feature-foo''
   \<and> git_GetMainRepoPath demo_env (ext occupied_world) ''/r'' = Inr ''/r''
   \<and> GetRepoByPath (cat occupied_world) ''/r'' = None
   \<and> (\<exists>repo. GetRepoByPath (cat (snd (ensureCurrentRepoInDB demo_env occupied_world ''/r'')))
                 ''/r'' = Some repo
             \<and> r_worktrees_dir repo = GetDefaultWorktreesDir ''/r'')
   \<and> db_open_error occupied_world = None
   \<and> fst (ensureCurrentRepoInDB demo_env occupied_world ''/r'') = None
   \<and> os_Stat demo_env (ext (snd (ensureCurrentRepoInDB demo_env occupied_world ''/r'')))
        (targetPath_of ''/r'' ''feature/foo'')
   \<and> fst (runAddWithBranchFromRepo demo_env occupied_world ''/r'' ''feature/foo'')
       = Some (WorktreeDirectoryAlreadyExists ''/r.worktrees/feature-foo'')
   \<and> ext (snd (runAddWithBranchFromRepo demo_env occupied_world ''/r'' ''feature/foo''))
       = ext occupied_world"
proof -
  let ?w1 = "snd (ensureCurrentRepoInDB demo_env occupied_world ''/r'')"
  have n: "dirName_of ''feature/foo'' = ''feature-foo''"
    by (simp add: dirName_of_def ReplaceAll_def)
  have g: "git_GetMainRepoPath demo_env (ext occupied_world) ''/r'' = Inr ''/r''"
    and q: "GetRepoByPath (cat occupied_world) ''/r'' = None"
    by (simp_all add: demo_env_def occupied_world_def GetRepoByPath_def)
  have o: "db_open_error occupied_world = None" by (simp add: occupied_world_def)
  have f: "fst (ensureCurrentRepoInDB demo_env occupied_world ''/r'') = None"
    by (simp add: ensureCurrentRepoInDB_def demo_env_def occupied_world_def GetRepoByPath_def)
  then have e: "ensureCurrentRepoInDB demo_env occupied_world ''/r'' = (None, ?w1)"
    by (simp add: prod_eq_iff)
  note t = add_target_path [of "''feature/foo''" "''/r''" demo_env occupied_world ?w1]
  from t have p: "targetPath_of ''/r'' ''feature/foo'' = ''/r.worktrees/feature-foo''" by blast
  from t have "dirName_of ''feature/foo'' \<noteq> [] \<and> dirName_of ''feature/foo'' \<noteq> ''.''
        \<and> dirName_of ''feature/foo'' \<noteq> ''..''
      \<longrightarrow> targetPath_of ''/r'' ''feature/foo''
            = GetDefaultWorktreesDir ''/r'' @ ''/'' @ dirName_of ''feature/foo''"
    by blast
  then have l: "targetPath_of ''/r'' ''feature/foo''
                  = GetDefaultWorktreesDir ''/r'' @ ''/feature-foo''"
    unfolding n by simp
  from t g q have r: "\<exists>repo. GetRepoByPath (cat ?w1) ''/r'' = Some repo
             \<and> r_worktrees_dir repo = GetDefaultWorktreesDir ''/r''"
    by blast
  have x: "ext ?w1 = ext occupied_world" using e by (rule ensureCurrentRepoInDB_ext)
  then have s: "os_Stat demo_env (ext ?w1) (targetPath_of ''/r'' ''feature/foo'')"
    unfolding p by (simp add: demo_env_def occupied_world_def)
  from t o e s have "runAddWithBranchFromRepo demo_env occupied_world ''/r'' ''feature/foo''
            = (Some (WorktreeDirectoryAlreadyExists (targetPath_of ''/r'' ''feature/foo'')), ?w1)"
    by blast
  with n l g q r o f s x p show ?thesis by simp
qed

text \<open>
  The claim as it was stated fails for the branch name \<^verbatim>\<open>..\<close>: the directory name is
  \<^verbatim>\<open>..\<close>, and \<^verbatim>\<open>filepath.Join\<close> turns \<^verbatim>\<open>/r.worktrees/..\<close> into \<^verbatim>\<open>/\<close>.
\<close>

theorem add_target_path_counterexample:
  "dirName_of ''..'' = ''..''
   \<and> GetDefaultWorktreesDir ''/r'' = ''/r.worktrees''
   \<and> targetPath_of ''/r'' ''..'' = ''/''
   \<and> targetPath_of ''/r'' ''..'' \<noteq> GetDefaultWorktreesDir ''/r'' @ ''/'' @ dirName_of ''..''"
  by (simp add: targetPath_of_def dirName_of_def ReplaceAll_def GetDefaultWorktreesDir_def
        GetRepoName_def Join_def Dir_def Base_def Clean_def clean_step_def Let_def)

end
